theory Spec2Isabelle
  imports Main "HOL-Library.Sublist"
begin
chapter \<open>The Zoom to Drive connector\<close>

text \<open>
  A shallow embedding of \<open>template_zoom-drive-connector_github.js\<close>: the windowed and
  paginated fetch of recordings and summaries, the transcript formatter, the folder
  router, the two ledger lookups, the logging of a transfer, and the processing of one
  recording. The first part holds the definitions, each named after the function of the
  source it follows; the definitions named \<open>spec_...\<close> follow the words of the
  specification instead. The second part holds the proofs.

  Calls that leave the script (the Zoom API, Drive, the tracking sheet, the clock) are
  parameters: a \<open>server\<close> for the API, an \<open>env\<close> for the rest. What a run changes is a
  \<open>world\<close>. An exception is the value \<open>Thrown\<close>.
\<close>

section \<open>Strings\<close>

text \<open>
  A JavaScript string is modelled as a \<^typ>\<open>string\<close>: a list of 8-bit code units, read as
  the Latin-1 range of the source's UTF-16 code units. The helpers below are the library
  calls the connector makes on strings, restricted to that range.
\<close>

definition isWhiteSpace :: "char \<Rightarrow> bool" where
  \<comment> \<open>what \<open>String.prototype.trim\<close> removes and what \<open>\\s\<close> matches: tab, line feed,
      vertical tab, form feed, carriage return, space, no-break space\<close>
  "isWhiteSpace c = (c \<in> set [CHR 0x09, CHR 0x0A, CHR 0x0B, CHR 0x0C, CHR 0x0D, CHR 0x20, CHR 0xA0])"

definition isDigit :: "char \<Rightarrow> bool" where
  \<comment> \<open>the class \<open>\\d\<close>\<close>
  "isDigit c = (c \<in> set ''0123456789'')"

definition trim :: "string \<Rightarrow> string" where
  "trim s = rev (dropWhile isWhiteSpace (rev (dropWhile isWhiteSpace s)))"

fun split_str :: "char \<Rightarrow> string \<Rightarrow> string list" where
  \<comment> \<open>\<open>s.split(c)\<close> for a one-character separator; the result is never empty\<close>
  "split_str c [] = [[]]"
| "split_str c (x # xs) =
     (if x = c then [] # split_str c xs
      else (case split_str c xs of [] \<Rightarrow> [[x]] | w # ws \<Rightarrow> (x # w) # ws))"

fun join_str :: "string \<Rightarrow> string list \<Rightarrow> string" where
  \<comment> \<open>\<open>parts.join(sep)\<close>\<close>
  "join_str sep [] = []"
| "join_str sep [x] = x"
| "join_str sep (x # y # ys) = x @ sep @ join_str sep (y # ys)"

fun includes_str :: "string \<Rightarrow> string \<Rightarrow> bool" where
  \<comment> \<open>\<open>hay.includes(needle)\<close>\<close>
  "includes_str [] needle = (needle = [])"
| "includes_str (c # cs) needle = (prefix needle (c # cs) \<or> includes_str cs needle)"

definition toLowerCaseChar :: "char \<Rightarrow> char" where
  "toLowerCaseChar c =
     (let n = (of_char c :: nat)
      in if (65 \<le> n \<and> n \<le> 90) \<or> (192 \<le> n \<and> n \<le> 222 \<and> n \<noteq> 215)
         then char_of (n + 32) else c)"

definition toLowerCase :: "string \<Rightarrow> string" where
  "toLowerCase s = map toLowerCaseChar s"

fun digitsValue :: "int \<Rightarrow> string \<Rightarrow> int" where
  \<comment> \<open>the number a string of decimal digits denotes, with an accumulator\<close>
  "digitsValue acc [] = acc"
| "digitsValue acc (c # cs) = digitsValue (10 * acc + (of_char c - 48)) cs"

section \<open>Configuration\<close>

text \<open>
  The global \<open>CONFIG\<close> object, with the fields the pipeline reads. \<open>FOLDER_MAPPING\<close> is
  an object literal: it is kept as the list of its properties in the order they are written.
\<close>

record config =
  DAYS_TO_FETCH :: int
  DELETE_AFTER_TRANSFER :: bool
  FOLDER_MAPPING :: "(string \<times> string) list"
  DEFAULT_FOLDER_ID :: string
  TOPIC_PREFIX_TO_REMOVE :: string

section \<open>Folder routing\<close>

definition isArrayIndex :: "string \<Rightarrow> bool" where
  \<comment> \<open>a property key that is a canonical array index: a decimal numeral without leading
      zero, below \<open>2^32 - 1\<close>\<close>
  "isArrayIndex k =
     (k \<noteq> [] \<and> list_all isDigit k \<and> (k = ''0'' \<or> hd k \<noteq> CHR ''0'') \<and>
      digitsValue 0 k < 4294967295)"

definition firstOccurrences :: "string list \<Rightarrow> string list" where
  "firstOccurrences ks = rev (remdups (rev ks))"

definition objectKeys :: "(string \<times> string) list \<Rightarrow> string list" where
  \<comment> \<open>\<open>Object.keys\<close> of an object literal: array-index keys in ascending numeric order,
      then the other keys in the order they were first written\<close>
  "objectKeys m =
     (let ks = firstOccurrences (map fst m)
      in sort_key (digitsValue 0) (filter isArrayIndex ks) @
         filter (\<lambda>k. \<not> isArrayIndex k) ks)"

definition propertyValue :: "(string \<times> string) list \<Rightarrow> string \<Rightarrow> string" where
  \<comment> \<open>\<open>obj[key]\<close> for an own key: the value written last wins. The keys the router
      looks up come from \<open>objectKeys\<close>, so the \<open>None\<close> branch is not taken there.\<close>
  "propertyValue m k = (case map_of (rev m) k of Some v \<Rightarrow> v | None \<Rightarrow> [])"

fun routeLoop :: "config \<Rightarrow> string \<Rightarrow> string list \<Rightarrow> string" where
  \<comment> \<open>the \<open>for (const keyword of keywords)\<close> loop of \<open>getDestinationFolderId\<close>\<close>
  "routeLoop cfg topicLower [] = DEFAULT_FOLDER_ID cfg"
| "routeLoop cfg topicLower (keyword # rest) =
     (if includes_str topicLower (toLowerCase keyword)
      then propertyValue (FOLDER_MAPPING cfg) keyword
      else routeLoop cfg topicLower rest)"

definition getDestinationFolderId :: "config \<Rightarrow> string \<Rightarrow> string" where
  "getDestinationFolderId cfg meetingTopic =
     (let keywords = objectKeys (FOLDER_MAPPING cfg);
          topicLower = toLowerCase meetingTopic
      in routeLoop cfg topicLower keywords)"

text \<open>
  The resolver as the specification words it: the configured pairs in configured order,
  the first keyword that is a case-insensitive substring of the topic wins.
\<close>

definition spec_resolve :: "config \<Rightarrow> string \<Rightarrow> string" where
  "spec_resolve cfg meetingTopic =
     (case find (\<lambda>(k, v). sublist (toLowerCase k) (toLowerCase meetingTopic)) (FOLDER_MAPPING cfg) of
        Some (k, v) \<Rightarrow> v
      | None \<Rightarrow> DEFAULT_FOLDER_ID cfg)"

text \<open>Two configurations used as concrete inputs below.\<close>

definition plainRouting :: config where
  "plainRouting =
     \<lparr> DAYS_TO_FETCH = 2, DELETE_AFTER_TRANSFER = True,
       FOLDER_MAPPING = [(''operations'', ''F1''), (''sync'', ''F2'')],
       DEFAULT_FOLDER_ID = ''F0'', TOPIC_PREFIX_TO_REMOVE = [] \<rparr>"

definition routingExample :: config where
  "routingExample =
     \<lparr> DAYS_TO_FETCH = 2, DELETE_AFTER_TRANSFER = True,
       FOLDER_MAPPING = [(''ops'', ''F1''), (''2024'', ''F2'')],
       DEFAULT_FOLDER_ID = ''F0'', TOPIC_PREFIX_TO_REMOVE = [] \<rparr>"

section \<open>Date windows\<close>

text \<open>
  A \<open>Date\<close> is modelled by its day number: \<open>d.setDate(d.getDate() - k)\<close> is the
  subtraction of \<open>k\<close> days, and two dates compare as their day numbers do. The lookback
  length \<open>CONFIG.DAYS_TO_FETCH\<close> is an integer.
\<close>

type_synonym day = int

definition numChunks :: "config \<Rightarrow> int" where
  \<comment> \<open>\<open>Math.ceil(CONFIG.DAYS_TO_FETCH / chunkSize)\<close> with \<open>chunkSize = 30\<close>\<close>
  "numChunks cfg = - ((- DAYS_TO_FETCH cfg) div 30)"

definition chunkWindow :: "config \<Rightarrow> day \<Rightarrow> nat \<Rightarrow> day \<times> day" where
  \<comment> \<open>the body of the chunk loop up to the two formatted dates: (start, end) of chunk \<open>i\<close>\<close>
  "chunkWindow cfg today i =
     (let fromDate = today - DAYS_TO_FETCH cfg;
          chunkEndDate = today - int i * 30;
          chunkStartDate = chunkEndDate - 30
      in (if chunkStartDate < fromDate then fromDate else chunkStartDate, chunkEndDate))"

definition fetchWindows :: "config \<Rightarrow> day \<Rightarrow> (day \<times> day) list" where
  \<comment> \<open>the windows of \<open>for (let i = 0; i < numChunks; i++)\<close>, in the order they are fetched\<close>
  "fetchWindows cfg today = map (chunkWindow cfg today) [0 ..< nat (numChunks cfg)]"

definition lookback :: "int \<Rightarrow> config" where
  \<comment> \<open>the template configuration with a given lookback length\<close>
  "lookback n = plainRouting \<lparr> DAYS_TO_FETCH := n \<rparr>"

section \<open>The Zoom API\<close>

text \<open>
  What \<open>UrlFetchApp.fetch\<close> followed by \<open>JSON.parse\<close> gives for one request: the call
  throws, or the response code is not 200, or it is 200 with a body.
\<close>

datatype 'a reply = Throws | NotOk | Ok 'a

record recording_file =
  file_type :: "string option"
  file_extension :: "string option"
  download_url :: "string option"

record recording =
  uuid :: string
  topic :: "string option"
  start_time :: "string option"
  host_email :: "string option"
  recording_files :: "recording_file list"

record summary =
  meeting_uuid :: string
  meeting_topic :: "string option"
  meeting_host_email :: "string option"
  summary_created_time :: "string option"

record zoom_user =
  user_id :: string
  user_email :: string

record recordings_body =
  meetings :: "recording list"
  page_count :: int

record summaries_body =
  summaries :: "summary list"
  next_page_token :: string

text \<open>
  The three endpoints the fetchers call, each a function of what the request URL and
  headers carry: the access token, the path and the query parameters. The summary list
  endpoint has no user in its URL.
\<close>

record server =
  listRecordings :: "string \<Rightarrow> string \<Rightarrow> day \<Rightarrow> day \<Rightarrow> nat \<Rightarrow> recordings_body reply"
  listSummaries :: "string \<Rightarrow> day \<Rightarrow> day \<Rightarrow> string \<Rightarrow> summaries_body reply"
  getUser :: "string \<Rightarrow> string \<Rightarrow> string option reply"

text \<open>A function of the source returns a value or throws.\<close>

datatype 'a outcome = Returned 'a | Thrown

definition truthy :: "string option \<Rightarrow> bool" where
  \<comment> \<open>a string-or-undefined value in a boolean position\<close>
  "truthy v = (case v of None \<Rightarrow> False | Some s \<Rightarrow> s \<noteq> [])"

definition getUserEmailById :: "server \<Rightarrow> string \<Rightarrow> string \<Rightarrow> string" where
  "getUserEmailById srv userId accessToken =
     (case getUser srv accessToken userId of
        Ok email \<Rightarrow>
          (case email of
             Some e \<Rightarrow> (if e \<noteq> [] then e else ''Unknown Email'')
           | None \<Rightarrow> ''Unknown Email'')
      | NotOk \<Rightarrow> ''Unknown Email''
      | Throws \<Rightarrow> ''Unknown Email'')"

definition withHostEmail :: "server \<Rightarrow> string \<Rightarrow> string \<Rightarrow> recording \<Rightarrow> recording" where
  \<comment> \<open>\<open>meeting.host_email = meeting.host_email || getUserEmailById(userId, accessToken)\<close>\<close>
  "withHostEmail srv userId accessToken meeting =
     (if truthy (host_email meeting) then meeting
      else meeting \<lparr> host_email := Some (getUserEmailById srv userId accessToken) \<rparr>)"

text \<open>
  The pagination loops run while the server announces more pages, so they need not end.
  They are given fuel, one unit per request; \<open>None\<close> says the fuel ran out before the
  loop ended.
\<close>

fun fetchRecordingsLoop ::
  "nat \<Rightarrow> server \<Rightarrow> string \<Rightarrow> string \<Rightarrow> day \<Rightarrow> day \<Rightarrow> nat \<Rightarrow> recording list \<Rightarrow>
   recording list outcome option" where
  "fetchRecordingsLoop 0 srv accessToken userId fromDate toDate page recordings = None"
| "fetchRecordingsLoop (Suc fuel) srv accessToken userId fromDate toDate page recordings =
     (case listRecordings srv accessToken userId fromDate toDate page of
        Throws \<Rightarrow> Some Thrown
      | NotOk \<Rightarrow> Some (Returned recordings)
      | Ok responseData \<Rightarrow>
          (let recordings' =
                 recordings @ map (withHostEmail srv userId accessToken) (meetings responseData)
           in if page_count responseData > int page
              then fetchRecordingsLoop fuel srv accessToken userId fromDate toDate
                     (page + 1) recordings'
              else Some (Returned recordings')))"

definition fetchRecordingsForDateRange ::
  "nat \<Rightarrow> server \<Rightarrow> string \<Rightarrow> string \<Rightarrow> day \<Rightarrow> day \<Rightarrow> recording list outcome option" where
  "fetchRecordingsForDateRange fuel srv accessToken userId fromDate toDate =
     fetchRecordingsLoop fuel srv accessToken userId fromDate toDate 1 []"

fun recordingChunks ::
  "nat \<Rightarrow> server \<Rightarrow> string \<Rightarrow> string \<Rightarrow> (day \<times> day) list \<Rightarrow> recording list \<Rightarrow>
   recording list outcome option" where
  \<comment> \<open>the chunk loop of \<open>getZoomRecordingsForUser\<close>: an exception in a chunk leaves it\<close>
  "recordingChunks fuel srv accessToken userId [] allRecordings = Some (Returned allRecordings)"
| "recordingChunks fuel srv accessToken userId ((chunkStart, chunkEnd) # rest) allRecordings =
     (case fetchRecordingsForDateRange fuel srv accessToken userId chunkStart chunkEnd of
        None \<Rightarrow> None
      | Some Thrown \<Rightarrow> Some Thrown
      | Some (Returned chunkRecordings) \<Rightarrow>
          recordingChunks fuel srv accessToken userId rest (allRecordings @ chunkRecordings))"

definition getZoomRecordingsForUser ::
  "nat \<Rightarrow> config \<Rightarrow> server \<Rightarrow> day \<Rightarrow> string \<Rightarrow> string \<Rightarrow> recording list option" where
  \<comment> \<open>the \<open>catch\<close> of the function returns the empty list\<close>
  "getZoomRecordingsForUser fuel cfg srv today accessToken userId =
     (case recordingChunks fuel srv accessToken userId (fetchWindows cfg today) [] of
        None \<Rightarrow> None
      | Some Thrown \<Rightarrow> Some []
      | Some (Returned allRecordings) \<Rightarrow> Some allRecordings)"

text \<open>
  The summary fetchers also return the requests they sent, as (from, to, next page token),
  in the order they were sent.
\<close>

type_synonym summary_request = "day \<times> day \<times> string"

fun fetchSummariesLoop ::
  "nat \<Rightarrow> server \<Rightarrow> string \<Rightarrow> day \<Rightarrow> day \<Rightarrow> string \<Rightarrow> summary_request list \<Rightarrow> summary list \<Rightarrow>
   (summary_request list \<times> summary list) option" where
  "fetchSummariesLoop 0 srv accessToken fromDate toDate nextPageToken sent acc = None"
| "fetchSummariesLoop (Suc fuel) srv accessToken fromDate toDate nextPageToken sent acc =
     (let sent' = sent @ [(fromDate, toDate, nextPageToken)]
      in case listSummaries srv accessToken fromDate toDate nextPageToken of
           Throws \<Rightarrow> Some (sent', acc)
         | NotOk \<Rightarrow> Some (sent', acc)
         | Ok responseData \<Rightarrow>
             (let acc' = acc @ summaries responseData
              in if next_page_token responseData \<noteq> []
                 then fetchSummariesLoop fuel srv accessToken fromDate toDate
                        (next_page_token responseData) sent' acc'
                 else Some (sent', acc')))"

definition fetchSummariesForDateRange ::
  "nat \<Rightarrow> server \<Rightarrow> string \<Rightarrow> day \<Rightarrow> day \<Rightarrow> (summary_request list \<times> summary list) option" where
  "fetchSummariesForDateRange fuel srv accessToken fromDate toDate =
     fetchSummariesLoop fuel srv accessToken fromDate toDate [] [] []"

fun summaryChunks ::
  "nat \<Rightarrow> server \<Rightarrow> string \<Rightarrow> (day \<times> day) list \<Rightarrow> summary_request list \<Rightarrow> summary list \<Rightarrow>
   (summary_request list \<times> summary list) option" where
  "summaryChunks fuel srv accessToken [] sent allSummaries = Some (sent, allSummaries)"
| "summaryChunks fuel srv accessToken ((chunkStart, chunkEnd) # rest) sent allSummaries =
     (case fetchSummariesForDateRange fuel srv accessToken chunkStart chunkEnd of
        None \<Rightarrow> None
      | Some (chunkSent, chunkSummaries) \<Rightarrow>
          summaryChunks fuel srv accessToken rest (sent @ chunkSent)
            (allSummaries @ chunkSummaries))"

definition getZoomSummariesForUser ::
  "nat \<Rightarrow> config \<Rightarrow> server \<Rightarrow> day \<Rightarrow> string \<Rightarrow> string \<Rightarrow>
   (summary_request list \<times> summary list) option" where
  \<comment> \<open>\<open>userId\<close> reaches the log lines of the function only\<close>
  "getZoomSummariesForUser fuel cfg srv today accessToken userId =
     summaryChunks fuel srv accessToken (fetchWindows cfg today) [] []"

fun summariesPresented ::
  "nat \<Rightarrow> config \<Rightarrow> server \<Rightarrow> day \<Rightarrow> string \<Rightarrow> zoom_user list \<Rightarrow>
   (summary_request list \<times> summary list) option" where
  \<comment> \<open>the second loop of \<open>runZoomToDriveConnector\<close>: the requests sent for all users and the
      summaries handed to \<open>processMeetingSummary\<close>, in order\<close>
  "summariesPresented fuel cfg srv today accessToken [] = Some ([], [])"
| "summariesPresented fuel cfg srv today accessToken (user # users) =
     (case getZoomSummariesForUser fuel cfg srv today accessToken (user_id user) of
        None \<Rightarrow> None
      | Some (userSent, userSummaries) \<Rightarrow>
          (case summariesPresented fuel cfg srv today accessToken users of
             None \<Rightarrow> None
           | Some (sent, presented) \<Rightarrow> Some (userSent @ sent, userSummaries @ presented)))"

text \<open>Concrete servers and items used as inputs below.\<close>

definition rec1 :: recording where
  "rec1 = \<lparr> uuid = ''u1'', topic = Some ''Standup'',
            start_time = Some ''2024-03-15T10:00:00Z'', host_email = Some ''a@x.org'',
            recording_files = [] \<rparr>"

definition sum1 :: summary where
  "sum1 = \<lparr> meeting_uuid = ''u1'', meeting_topic = Some ''Standup'',
            meeting_host_email = Some ''a@x.org'',
            summary_created_time = Some ''2024-03-15T11:00:00Z'' \<rparr>"

definition failingServer :: server where
  \<comment> \<open>first page of either list: one item and more pages announced; the request for the
      second page throws\<close>
  "failingServer =
     \<lparr> listRecordings = (\<lambda>tok uid f t page.
          if page = 1 then Ok \<lparr> meetings = [rec1], page_count = 2 \<rparr> else Throws),
       listSummaries = (\<lambda>tok f t npt.
          if npt = [] then Ok \<lparr> summaries = [sum1], next_page_token = ''p2'' \<rparr> else Throws),
       getUser = (\<lambda>tok uid. NotOk) \<rparr>"

definition onePageServer :: server where
  "onePageServer =
     \<lparr> listRecordings = (\<lambda>tok uid f t page. Ok \<lparr> meetings = [rec1], page_count = 1 \<rparr>),
       listSummaries = (\<lambda>tok f t npt. Ok \<lparr> summaries = [sum1], next_page_token = [] \<rparr>),
       getUser = (\<lambda>tok uid. NotOk) \<rparr>"

definition userA :: zoom_user where
  "userA = \<lparr> user_id = ''idA'', user_email = ''a@x.org'' \<rparr>"

definition userB :: zoom_user where
  "userB = \<lparr> user_id = ''idB'', user_email = ''b@x.org'' \<rparr>"

section \<open>Transcript formatter\<close>

definition isTimestampLine :: "string \<Rightarrow> bool" where
  \<comment> \<open>the pattern \<open>^\\d{2}:\\d{2}:\\d{2}\<close>\<close>
  "isTimestampLine line =
     (8 \<le> length line \<and> isDigit (line ! 0) \<and> isDigit (line ! 1) \<and> line ! 2 = CHR '':'' \<and>
      isDigit (line ! 3) \<and> isDigit (line ! 4) \<and> line ! 5 = CHR '':'' \<and>
      isDigit (line ! 6) \<and> isDigit (line ! 7))"

definition skippedLine :: "string \<Rightarrow> bool" where
  \<comment> \<open>the WebVTT header, timestamps, sequence numbers and empty lines\<close>
  "skippedLine line =
     (prefix ''WEBVTT'' line \<or> isTimestampLine line \<or>
      (line \<noteq> [] \<and> list_all isDigit line) \<or> line = [])"

record transcript_state =
  plainText :: "string list"
  currentSpeaker :: "string option"
  currentStatement :: "string list"

definition flushStatement :: "transcript_state \<Rightarrow> string list" where
  \<comment> \<open>\<open>if (currentSpeaker && currentStatement.length > 0) plainText.push(...)\<close>\<close>
  "flushStatement st =
     (case currentSpeaker st of
        None \<Rightarrow> plainText st
      | Some speaker \<Rightarrow>
          (if speaker \<noteq> [] \<and> currentStatement st \<noteq> []
           then plainText st @ [speaker @ '': '' @ join_str '' '' (currentStatement st)]
           else plainText st))"

definition transcriptStep :: "transcript_state \<Rightarrow> string \<Rightarrow> transcript_state" where
  \<comment> \<open>one round of the loop over the lines\<close>
  "transcriptStep st rawLine =
     (let line = trim rawLine
      in if skippedLine line then st
         else if includes_str line '':'' then
           (case split_str CHR '':'' line of
              [] \<Rightarrow> st
            | first # text \<Rightarrow>
                (let speaker = trim first;
                     statement = trim (join_str '':'' text)
                 in if speaker \<noteq> [] \<and> statement \<noteq> [] then
                      (if currentSpeaker st = Some speaker
                       then st \<lparr> currentStatement := currentStatement st @ [statement] \<rparr>
                       else \<lparr> plainText = flushStatement st, currentSpeaker = Some speaker,
                              currentStatement = [statement] \<rparr>)
                    else st))
         else st)"

definition transcriptText :: "string \<Rightarrow> string" where
  \<comment> \<open>\<open>finalText\<close> of \<open>convertTranscriptToText\<close>\<close>
  "transcriptText vttContent =
     (let lines = split_str CHR 0x0A vttContent;
          st = foldl transcriptStep
                 \<lparr> plainText = [], currentSpeaker = None, currentStatement = [] \<rparr> lines
      in join_str [CHR 0x0A, CHR 0x0A] (flushStatement st))"

fun replaceFirst :: "string \<Rightarrow> string \<Rightarrow> string \<Rightarrow> string" where
  \<comment> \<open>\<open>s.replace(pat, rep)\<close> for a string pattern: the first occurrence only\<close>
  "replaceFirst pat rep [] = (if pat = [] then rep else [])"
| "replaceFirst pat rep (c # cs) =
     (if prefix pat (c # cs) then rep @ drop (length pat) (c # cs)
      else c # replaceFirst pat rep cs)"

definition textFileNameOf :: "string \<Rightarrow> string" where
  "textFileNameOf fileName = replaceFirst ''.VTT'' ''.txt'' (replaceFirst ''.vtt'' ''.txt'' fileName)"

definition convertTranscriptToText :: "string \<Rightarrow> string \<Rightarrow> string \<times> string" where
  \<comment> \<open>the name and the content of the text file it creates\<close>
  "convertTranscriptToText vttContent fileName = (textFileNameOf fileName, transcriptText vttContent)"

text \<open>What one entry (speaker, statement) does to the loop state.\<close>

definition pushEntry :: "transcript_state \<Rightarrow> string \<times> string \<Rightarrow> transcript_state" where
  "pushEntry st e =
     (if currentSpeaker st = Some (fst e)
      then st \<lparr> currentStatement := currentStatement st @ [snd e] \<rparr>
      else \<lparr> plainText = flushStatement st, currentSpeaker = Some (fst e),
             currentStatement = [snd e] \<rparr>)"

text \<open>
  The formatter as the specification words it: the kept lines, each split on its first
  colon; runs of consecutive entries of one speaker merged; one paragraph per run.
\<close>

definition spec_entry :: "string \<Rightarrow> (string \<times> string) option" where
  "spec_entry line =
     (if CHR '':'' \<in> set line then
        (let speaker = trim (takeWhile (\<lambda>c. c \<noteq> CHR '':'') line);
             statement = trim (drop 1 (dropWhile (\<lambda>c. c \<noteq> CHR '':'') line))
         in if speaker \<noteq> [] \<and> statement \<noteq> [] then Some (speaker, statement) else None)
      else None)"

definition spec_entries :: "string \<Rightarrow> (string \<times> string) list" where
  "spec_entries vttContent =
     List.map_filter spec_entry
       (filter (\<lambda>line. \<not> skippedLine line) (map trim (split_str CHR 0x0A vttContent)))"

fun spec_merge :: "(string \<times> string) list \<Rightarrow> (string \<times> string list) list" where
  "spec_merge [] = []"
| "spec_merge ((speaker, statement) # rest) =
     (case spec_merge rest of
        [] \<Rightarrow> [(speaker, [statement])]
      | (speaker', statements) # groups \<Rightarrow>
          (if speaker' = speaker then (speaker, statement # statements) # groups
           else (speaker, [statement]) # (speaker', statements) # groups))"

definition spec_paragraph :: "string \<times> string list \<Rightarrow> string" where
  "spec_paragraph g = fst g @ '': '' @ join_str '' '' (snd g)"

definition spec_render :: "(string \<times> string list) list \<Rightarrow> string" where
  "spec_render groups = join_str [CHR 0x0A, CHR 0x0A] (map spec_paragraph groups)"

definition initialTranscript :: transcript_state where
  "initialTranscript = \<lparr> plainText = [], currentSpeaker = None, currentStatement = [] \<rparr>"

definition captionExample :: string where
  "captionExample =
     ''00:00:01.000 --> 00:00:02.000\<newline>1\<newline>Alice: Hello there\<newline>Alice: how are you\<newline>Bob: I'' @
     [CHR 0x27] @ ''m fine''"

definition captionExampleText :: string where
  "captionExampleText =
     ''Alice: Hello there how are you\<newline>\<newline>Bob: I'' @ [CHR 0x27] @ ''m fine''"

section \<open>Tracking sheet\<close>

text \<open>
  A cell as \<open>getValues\<close> returns it: a string, a \<open>Date\<close> (kept as year, month and day
  of the month in the script time zone), or a value of another type. A sheet is the list
  of its rows; row 0 is the header.
\<close>

datatype cell = TextCell string | DateCell int int int | OtherCell

type_synonym row = "cell list"

type_synonym sheet = "row list"

definition cellAt :: "row \<Rightarrow> nat \<Rightarrow> cell" where
  \<comment> \<open>\<open>data[i][j]\<close>; beyond the row it is \<open>undefined\<close>, which equals no string\<close>
  "cellAt r j = (if j < length r then r ! j else OtherCell)"

definition digitChar :: "int \<Rightarrow> char" where
  "digitChar n = (if 0 \<le> n \<and> n < 10 then ''0123456789'' ! nat n else CHR ''?'')"

function showDec :: "int \<Rightarrow> string" where
  "showDec n = (if n < 10 then [digitChar n] else showDec (n div 10) @ [digitChar (n mod 10)])"
  by pat_completeness auto
termination
  by (relation "measure nat") auto

definition padZero :: "nat \<Rightarrow> string \<Rightarrow> string" where
  "padZero w s = replicate (w - length s) CHR ''0'' @ s"

definition formatYMD :: "int \<Rightarrow> int \<Rightarrow> int \<Rightarrow> string" where
  \<comment> \<open>\<open>Utilities.formatDate(date, tz, "yyyy-MM-dd")\<close>\<close>
  "formatYMD y m d = padZero 4 (showDec y) @ ''-'' @ padZero 2 (showDec m) @ ''-'' @ padZero 2 (showDec d)"

definition formatMDY :: "int \<Rightarrow> int \<Rightarrow> int \<Rightarrow> string" where
  \<comment> \<open>\<open>Utilities.formatDate(date, tz, "MM-dd-yyyy")\<close>\<close>
  "formatMDY y m d = padZero 2 (showDec m) @ ''-'' @ padZero 2 (showDec d) @ ''-'' @ padZero 4 (showDec y)"

fun recordingRows :: "string \<Rightarrow> string \<Rightarrow> row list \<Rightarrow> bool" where
  \<comment> \<open>the loop of \<open>isRecordingProcessed\<close> over the rows after the header\<close>
  "recordingRows meetingTopic meetingDate [] = False"
| "recordingRows meetingTopic meetingDate (r # rs) =
     (if cellAt r 0 = TextCell meetingTopic \<and> cellAt r 1 = TextCell meetingDate then True
      else recordingRows meetingTopic meetingDate rs)"

definition isRecordingProcessed :: "string \<Rightarrow> string \<Rightarrow> sheet \<Rightarrow> bool" where
  "isRecordingProcessed meetingTopic meetingDate data =
     recordingRows meetingTopic meetingDate (drop 1 data)"

definition normalizedDate :: "cell \<Rightarrow> cell" where
  \<comment> \<open>\<open>if (date instanceof Date) date = Utilities.formatDate(date, ..., "yyyy-MM-dd")\<close>\<close>
  "normalizedDate c = (case c of DateCell y m d \<Rightarrow> TextCell (formatYMD y m d) | _ \<Rightarrow> c)"

fun summaryRows :: "string \<Rightarrow> string \<Rightarrow> row list \<Rightarrow> bool" where
  \<comment> \<open>the loop of \<open>isSummaryProcessed\<close> over the rows after the header\<close>
  "summaryRows meetingTopic meetingDate [] = False"
| "summaryRows meetingTopic meetingDate (r # rs) =
     (let rowTopic = cellAt r 0;
          date = normalizedDate (cellAt r 1);
          filesTransferred = cellAt r 2
      in if rowTopic = TextCell meetingTopic \<and> date = TextCell meetingDate \<and>
            filesTransferred = TextCell ''AI Summary''
         then True
         else summaryRows meetingTopic meetingDate rs)"

definition isSummaryProcessed :: "string \<Rightarrow> string \<Rightarrow> sheet \<Rightarrow> bool" where
  "isSummaryProcessed meetingTopic meetingDate data =
     summaryRows meetingTopic meetingDate (drop 1 data)"

text \<open>
  The ledger as the specification words it: a row is of the summary kind when its
  file-types cell is the marker, of the recording kind otherwise; a triple (topic, date,
  kind) is present when a row of that kind holds the topic and, with its date brought to
  \<open>yyyy-MM-dd\<close>, the date.
\<close>

datatype kind = RecordingKind | SummaryKind

definition rowKind :: "row \<Rightarrow> kind" where
  "rowKind r = (if cellAt r 2 = TextCell ''AI Summary'' then SummaryKind else RecordingKind)"

definition spec_present :: "kind \<Rightarrow> string \<Rightarrow> string \<Rightarrow> sheet \<Rightarrow> bool" where
  "spec_present k meetingTopic meetingDate data =
     list_ex (\<lambda>r. cellAt r 0 = TextCell meetingTopic \<and>
                  normalizedDate (cellAt r 1) = TextCell meetingDate \<and> rowKind r = k)
       (drop 1 data)"

definition isTextCell :: "cell \<Rightarrow> bool" where
  "isTextCell c = (case c of TextCell s \<Rightarrow> True | _ \<Rightarrow> False)"

section \<open>The collaborators of the orchestrator\<close>

text \<open>
  What the pipeline takes from outside its own code, as parameters:
  \<^item> \<open>storeText\<close>: the cell the tracking store holds, and \<open>getValues\<close> returns, for a
    text written into it;
  \<^item> \<open>formatIrregularDate\<close>: the formatted meeting date \<open>logTransferToSheet\<close> ends with
    for a three-part date that is not a calendar date \<open>yyyy-M-d\<close> (the \<open>Date\<close> constructor
    and \<open>Utilities.formatDate\<close> decide it);
  \<^item> \<open>otherPattern\<close>: the result of the prefix replacement when the configured prefix
    holds characters that are special in a regular expression, \<open>None\<close> when the \<open>RegExp\<close>
    constructor throws;
  \<^item> \<open>parentFolderExists\<close>, \<open>folderId\<close>, \<open>createFile\<close>: the Drive calls;
    \<open>createFile\<close> gives the id of the new file, or \<open>None\<close> when it throws;
  \<^item> \<open>download\<close>: \<open>UrlFetchApp.fetch\<close> of a download URL, with the content on a 200;
  \<^item> \<open>now\<close>: \<open>new Date()\<close>.
\<close>

record env =
  storeText :: "string \<Rightarrow> cell"
  formatIrregularDate :: "string \<Rightarrow> string"
  otherPattern :: "string \<Rightarrow> string \<Rightarrow> string option"
  parentFolderExists :: "string \<Rightarrow> bool"
  folderId :: "string \<Rightarrow> string \<Rightarrow> string"
  createFile :: "string \<Rightarrow> string \<Rightarrow> string option"
  download :: "string \<Rightarrow> string reply"
  now :: cell

text \<open>What a run changes: the sheet, the files and folders in Drive, the deletion calls
  sent to Zoom, and the error log.\<close>

record world =
  trackingSheet :: sheet
  uploads :: "(string \<times> string \<times> string) list"
  folders :: "(string \<times> string) list"
  deletions :: "string list"
  errorLog :: "string list"

section \<open>Logging a transfer\<close>

definition fileTypesList :: "string \<Rightarrow> string" where
  "fileTypesList filesTransferred =
     join_str '', ''
       ((if includes_str filesTransferred ''.mp4'' then [''Video''] else []) @
        (if includes_str filesTransferred ''.m4a'' then [''Audio''] else []) @
        (if includes_str filesTransferred ''chat.txt'' \<or> includes_str filesTransferred ''Chat.txt''
         then [''Chat''] else []) @
        (if includes_str filesTransferred ''transcript.txt'' then [''Transcript''] else []) @
        (if includes_str filesTransferred ''AI Summary'' then [''AI Summary''] else []))"

definition isLeapYear :: "int \<Rightarrow> bool" where
  "isLeapYear y = (y mod 4 = 0 \<and> (y mod 100 \<noteq> 0 \<or> y mod 400 = 0))"

definition daysInMonth :: "int \<Rightarrow> int \<Rightarrow> int" where
  "daysInMonth y m =
     (if m = 2 then (if isLeapYear y then 29 else 28)
      else if m = 4 \<or> m = 6 \<or> m = 9 \<or> m = 11 then 30 else 31)"

definition calendarDate :: "string \<Rightarrow> string \<Rightarrow> string \<Rightarrow> (int \<times> int \<times> int) option" where
  \<comment> \<open>the three parts of \<open>yyyy-M-d\<close> as a date, for the years in which the calendars of
      \<open>Date\<close> and \<open>Utilities.formatDate\<close> agree\<close>
  "calendarDate ys ms ds =
     (if list_all isDigit ys \<and> length ys = 4 \<and>
         list_all isDigit ms \<and> (length ms = 1 \<or> length ms = 2) \<and>
         list_all isDigit ds \<and> (length ds = 1 \<or> length ds = 2)
      then (let y = digitsValue 0 ys; m = digitsValue 0 ms; d = digitsValue 0 ds
            in if 1583 \<le> y \<and> 1 \<le> m \<and> m \<le> 12 \<and> 1 \<le> d \<and> d \<le> daysInMonth y m
               then Some (y, m, d) else None)
      else None)"

definition formattedMeetingDate :: "env \<Rightarrow> string \<Rightarrow> string" where
  "formattedMeetingDate e meetingDate =
     (if meetingDate \<noteq> [] \<and> meetingDate \<noteq> ''Unknown Date'' then
        (case split_str CHR ''-'' meetingDate of
           [ys, ms, ds] \<Rightarrow>
             (case calendarDate ys ms ds of
                Some (y, m, d) \<Rightarrow> formatMDY y m d
              | None \<Rightarrow> formatIrregularDate e meetingDate)
         | _ \<Rightarrow> meetingDate)
      else meetingDate)"

definition logTransferToSheet ::
  "env \<Rightarrow> sheet \<Rightarrow> string \<Rightarrow> string \<Rightarrow> string \<Rightarrow> string \<Rightarrow> string \<Rightarrow> sheet" where
  \<comment> \<open>the row it appends; \<open>folderName\<close> is the name of the folder with the given id\<close>
  "logTransferToSheet e data meetingTopic meetingDate filesTransferred folderName hostEmail =
     data @ [[storeText e meetingTopic,
              storeText e (formattedMeetingDate e meetingDate),
              storeText e (fileTypesList filesTransferred),
              storeText e folderName,
              now e,
              storeText e hostEmail]]"

section \<open>Processing one recording\<close>

definition patternLiteral :: "string \<Rightarrow> bool" where
  \<comment> \<open>no character of the prefix is special in a regular expression\<close>
  "patternLiteral p = list_all (\<lambda>c. c \<notin> set (CHR 0x5C # ''^$.|?*+()[]{}'')) p"

definition replaceLiteralPrefix :: "string \<Rightarrow> string \<Rightarrow> string" where
  \<comment> \<open>\<open>topic.replace(/^PREFIX(\\s\\|\\s|\\s)/, "")\<close> for a topic that starts with the
      literal prefix: the first alternative is tried first\<close>
  "replaceLiteralPrefix p meetingTopic =
     (case drop (length p) meetingTopic of
        a # b # c # others \<Rightarrow>
          (if isWhiteSpace a \<and> b = CHR ''|'' \<and> isWhiteSpace c then others
           else if isWhiteSpace a then b # c # others
           else meetingTopic)
      | a # others \<Rightarrow> (if isWhiteSpace a then others else meetingTopic)
      | [] \<Rightarrow> meetingTopic)"

definition stripTopicPrefix :: "config \<Rightarrow> env \<Rightarrow> string \<Rightarrow> string outcome" where
  \<comment> \<open>the block "Remove topic prefix if configured" of \<open>processRecording\<close> and of
      \<open>processMeetingSummary\<close>\<close>
  "stripTopicPrefix cfg e meetingTopic =
     (let p = TOPIC_PREFIX_TO_REMOVE cfg
      in if p \<noteq> [] \<and> prefix p meetingTopic then
           (if patternLiteral p then Returned (replaceLiteralPrefix p meetingTopic)
            else (case otherPattern e p meetingTopic of
                    None \<Rightarrow> Thrown
                  | Some s \<Rightarrow> Returned s))
         else Returned meetingTopic)"

definition orDefault :: "string option \<Rightarrow> string \<Rightarrow> string" where
  \<comment> \<open>\<open>value || fallback\<close>\<close>
  "orDefault v fallback = (case v of None \<Rightarrow> fallback | Some s \<Rightarrow> (if s = [] then fallback else s))"

definition datePart :: "string option \<Rightarrow> string" where
  \<comment> \<open>\<open>t ? t.split("T")[0] : "Unknown Date"\<close>\<close>
  "datePart t =
     (if truthy t
      then (case t of Some s \<Rightarrow> takeWhile (\<lambda>c. c \<noteq> CHR ''T'') s | None \<Rightarrow> ''Unknown Date'')
      else ''Unknown Date'')"

definition recordingTopic :: "config \<Rightarrow> env \<Rightarrow> recording \<Rightarrow> string outcome" where
  "recordingTopic cfg e r = stripTopicPrefix cfg e (orDefault (topic r) ''Unnamed Meeting'')"

definition orUndefined :: "string option \<Rightarrow> string" where
  \<comment> \<open>a string-or-undefined value inside a template literal\<close>
  "orUndefined v = (case v of None \<Rightarrow> ''undefined'' | Some s \<Rightarrow> s)"

definition fileNameOf :: "string \<Rightarrow> string \<Rightarrow> string option \<Rightarrow> string option \<Rightarrow> string" where
  "fileNameOf meetingDate meetingTopic fileType fileExtension =
     (if fileExtension = Some ''mp4''
      then meetingDate @ ''_'' @ meetingTopic @ ''_video.'' @ orUndefined fileExtension
      else if fileExtension = Some ''m4a''
      then meetingDate @ ''_'' @ meetingTopic @ ''_audio.'' @ orUndefined fileExtension
      else if fileType = Some ''transcript''
      then meetingDate @ ''_'' @ meetingTopic @ ''_transcript.'' @ orUndefined fileExtension
      else meetingDate @ ''_'' @ meetingTopic @ ''_'' @ orUndefined fileType @ ''.'' @
           orUndefined fileExtension)"

definition createDriveFolder :: "env \<Rightarrow> string \<Rightarrow> string \<Rightarrow> string outcome" where
  \<comment> \<open>the id of the folder, found or created; it throws on a missing or invalid parent\<close>
  "createDriveFolder e folderName parentFolderId =
     (if parentFolderId = [] \<or> \<not> parentFolderExists e parentFolderId then Thrown
      else Returned (folderId e parentFolderId folderName))"

definition storeFile ::
  "env \<Rightarrow> string \<Rightarrow> string \<Rightarrow> string \<Rightarrow> world \<times> string list \<Rightarrow> world \<times> string list" where
  \<comment> \<open>\<open>folder.createFile\<close> followed by \<open>filesTransferred.push\<close>; when the creation
      throws, the \<open>catch\<close> of the file loop leaves both as they are\<close>
  "storeFile e folder name content acc =
     (case createFile e folder name of
        None \<Rightarrow> acc
      | Some fileId \<Rightarrow>
          ((fst acc) \<lparr> uploads := uploads (fst acc) @ [(folder, name, content)] \<rparr>,
           snd acc @ [name @ '' ('' @ fileId @ '')'']))"

definition processFile ::
  "env \<Rightarrow> string \<Rightarrow> string \<Rightarrow> string \<Rightarrow> string \<Rightarrow> world \<times> string list \<Rightarrow> recording_file \<Rightarrow>
   world \<times> string list" where
  \<comment> \<open>one round of the loop over \<open>recording.recording_files\<close>, on the world and
      \<open>filesTransferred\<close>\<close>
  "processFile e accessToken folder meetingDate meetingTopic acc file =
     (let fileType = map_option toLowerCase (file_type file);
          fileExtension = map_option toLowerCase (file_extension file)
      in if fileExtension = Some ''json'' then acc
         else
           (let fileName = fileNameOf meetingDate meetingTopic fileType fileExtension
            in case download_url file of
                 None \<Rightarrow> acc
               | Some downloadUrl \<Rightarrow>
                   (if downloadUrl = [] then acc
                    else
                      (let authDownloadUrl =
                             downloadUrl @ (if includes_str downloadUrl ''?'' then ''&'' else ''?'') @
                             ''access_token='' @ accessToken
                       in if fileExtension = Some ''vtt'' \<or> fileExtension = Some ''VTT'' then
                            (case download e authDownloadUrl of
                               Ok vttContent \<Rightarrow>
                                 storeFile e folder
                                   (fst (convertTranscriptToText vttContent fileName))
                                   (snd (convertTranscriptToText vttContent fileName)) acc
                             | NotOk \<Rightarrow> acc
                             | Throws \<Rightarrow> acc)
                          else
                            (case fileExtension of
                               None \<Rightarrow> acc
                             | Some ext \<Rightarrow>
                                 (case download e authDownloadUrl of
                                    Ok content \<Rightarrow> storeFile e folder fileName content acc
                                  | NotOk \<Rightarrow> acc
                                  | Throws \<Rightarrow> acc))))))"

definition trackError :: "string \<Rightarrow> world \<Rightarrow> world" where
  "trackError message w = w \<lparr> errorLog := errorLog w @ [message] \<rparr>"

definition processRecording :: "config \<Rightarrow> env \<Rightarrow> recording \<Rightarrow> string \<Rightarrow> world \<Rightarrow> world" where
  "processRecording cfg e r accessToken w =
     (let meetingId = uuid r
      in case recordingTopic cfg e r of
           Thrown \<Rightarrow> trackError ''Invalid regular expression'' w
         | Returned meetingTopic \<Rightarrow>
             (let meetingDate = datePart (start_time r);
                  hostEmail = orDefault (host_email r) ''Unknown Host''
              in if isRecordingProcessed meetingTopic meetingDate (trackingSheet w) then w
                 else
                   (let folderName = meetingDate @ ''_'' @ meetingTopic;
                        destinationFolderId = getDestinationFolderId cfg meetingTopic
                    in case createDriveFolder e folderName destinationFolderId of
                         Thrown \<Rightarrow> trackError ''createDriveFolder'' w
                       | Returned folder \<Rightarrow>
                           (let w0 = w \<lparr> folders := folders w @ [(destinationFolderId, folderName)] \<rparr>;
                                result = foldl (processFile e accessToken folder meetingDate meetingTopic)
                                         (w0, []) (recording_files r);
                                w1 = fst result;
                                filesTransferred = snd result;
                                w2 = (if DELETE_AFTER_TRANSFER cfg \<and> filesTransferred \<noteq> []
                                      then w1 \<lparr> deletions := deletions w1 @ [meetingId] \<rparr>
                                      else w1)
                            in w2 \<lparr> trackingSheet :=
                                  logTransferToSheet e (trackingSheet w2) meetingTopic meetingDate
                                    (join_str '', '' filesTransferred) folderName hostEmail \<rparr>))))"

text \<open>Concrete inputs used below.\<close>

definition headerRow :: row where
  "headerRow = map TextCell [''Meeting Topic'', ''Meeting Date'', ''Files Transferred'',
     ''Location in Drive'', ''Transfer Date'', ''Host Email'']"

definition parseMDY :: "string \<Rightarrow> cell" where
  \<comment> \<open>a store that reads a text of the form \<open>MM-dd-yyyy\<close> as a date\<close>
  "parseMDY s =
     (case split_str CHR ''-'' s of
        [ms, ds, ys] \<Rightarrow>
          (case calendarDate ys ms ds of
             Some (y, m, d) \<Rightarrow> DateCell y m d
           | None \<Rightarrow> TextCell s)
      | _ \<Rightarrow> TextCell s)"

definition textEnv :: env where
  \<comment> \<open>the store keeps every text as text; every download and upload succeeds\<close>
  "textEnv =
     \<lparr> storeText = TextCell, formatIrregularDate = (\<lambda>s. s), otherPattern = (\<lambda>p s. Some s),
       parentFolderExists = (\<lambda>f. True), folderId = (\<lambda>parent name. ''id-of-'' @ name),
       createFile = (\<lambda>folder name. Some ''file1''), download = (\<lambda>url. Ok ''bytes''),
       now = DateCell 2024 3 16 \<rparr>"

definition parsingEnv :: env where
  \<comment> \<open>as \<open>textEnv\<close>, with a store that holds date-like texts as dates\<close>
  "parsingEnv = textEnv \<lparr> storeText := parseMDY \<rparr>"

definition failingEnv :: env where
  \<comment> \<open>as \<open>textEnv\<close>, with every download answered by an error status\<close>
  "failingEnv = textEnv \<lparr> download := (\<lambda>url. NotOk) \<rparr>"

definition emptyWorld :: world where
  "emptyWorld = \<lparr> trackingSheet = [headerRow], uploads = [], folders = [], deletions = [],
                  errorLog = [] \<rparr>"

definition videoFile :: recording_file where
  "videoFile = \<lparr> file_type = Some ''MP4'', file_extension = Some ''MP4'',
                 download_url = Some ''https://zoom.example/rec/1'' \<rparr>"

definition rec2 :: recording where
  "rec2 = rec1 \<lparr> recording_files := [videoFile] \<rparr>"

definition keepConfig :: config where
  \<comment> \<open>recordings stay in Zoom after the transfer\<close>
  "keepConfig = plainRouting \<lparr> DELETE_AFTER_TRANSFER := False \<rparr>"

definition orgConfig :: config where
  "orgConfig = plainRouting \<lparr> TOPIC_PREFIX_TO_REMOVE := ''Org'' \<rparr>"

definition datedSheet :: sheet where
  \<comment> \<open>one logged row, its meeting date held as a date\<close>
  "datedSheet =
     [headerRow,
      [TextCell ''Standup'', DateCell 2024 3 15, TextCell ''AI Summary'',
       TextCell ''2024-03-15_Standup'', DateCell 2024 3 16, TextCell ''a@x.org'']]"

definition textSheet :: sheet where
  \<comment> \<open>the same row, its meeting date held as the text that was written\<close>
  "textSheet =
     [headerRow,
      [TextCell ''Standup'', TextCell ''03-15-2024'', TextCell ''AI Summary'',
       TextCell ''2024-03-15_Standup'', DateCell 2024 3 16, TextCell ''a@x.org'']]"

definition undatedSummarySheet :: sheet where
  \<comment> \<open>the row logged for a summary without a creation time\<close>
  "undatedSummarySheet =
     [headerRow,
      [TextCell ''Standup'', TextCell ''Unknown Date'', TextCell ''AI Summary'',
       TextCell ''Unknown Date_Standup'', DateCell 2024 3 16, TextCell ''a@x.org'']]"

definition mixedSheet :: sheet where
  "mixedSheet =
     [headerRow,
      [TextCell ''Standup'', TextCell ''Unknown Date'', TextCell ''Video'',
       TextCell ''Unknown Date_Standup'', DateCell 2024 3 16, TextCell ''a@x.org''],
      [TextCell ''Retro'', TextCell ''Unknown Date'', TextCell ''AI Summary'',
       TextCell ''Unknown Date_Retro'', DateCell 2024 3 16, TextCell ''a@x.org'']]"

definition orgRec :: recording where
  "orgRec = rec2 \<lparr> topic := Some ''Org | Standup'' \<rparr>"

definition orgUndated :: recording where
  "orgUndated = rec2 \<lparr> topic := Some ''Org Standup'', start_time := None \<rparr>"

definition loggedWorld :: world where
  "loggedWorld = emptyWorld \<lparr> trackingSheet := mixedSheet \<rparr>"

text \<open>
  The invariant of the file loop, on the pair of the world and \<open>filesTransferred\<close>: the
  loop leaves the sheet and the deletion calls alone, and it adds one upload for each
  entry it adds to \<open>filesTransferred\<close>.
\<close>

definition fileStep :: "world \<times> string list \<Rightarrow> world \<times> string list \<Rightarrow> bool" where
  "fileStep acc acc' =
     (trackingSheet (fst acc') = trackingSheet (fst acc) \<and>
      deletions (fst acc') = deletions (fst acc) \<and>
      (\<exists>ups. uploads (fst acc') = uploads (fst acc) @ ups \<and>
             length (snd acc') = length (snd acc) + length ups))"

section \<open>Folder routing: proofs\<close>


lemma includes_sublist: "includes_str h n \<longleftrightarrow> sublist n h"
  by (induction h) (auto simp: sublist_Cons_right)

lemma routeLoop_find:
  "routeLoop cfg t ks =
     (case find (\<lambda>k. includes_str t (toLowerCase k)) ks of
        Some k \<Rightarrow> propertyValue (FOLDER_MAPPING cfg) k
      | None \<Rightarrow> DEFAULT_FOLDER_ID cfg)"
  by (induction ks) auto

lemma firstOccurrences_distinct: "distinct ks \<Longrightarrow> firstOccurrences ks = ks"
  by (simp add: firstOccurrences_def distinct_remdups_id)

lemma objectKeys_plain:
  assumes "\<forall>k \<in> set (map fst m). \<not> isArrayIndex k" and "distinct (map fst m)"
  shows "objectKeys m = map fst m"
proof -
  have "filter isArrayIndex (map fst m) = []" using assms(1) by (auto simp: filter_empty_conv)
  moreover have "filter (\<lambda>k. \<not> isArrayIndex k) (map fst m) = map fst m"
    using assms(1) by (auto simp: filter_id_conv)
  ultimately show ?thesis
    using assms(2) by (simp add: objectKeys_def firstOccurrences_distinct)
qed

lemma propertyValue_distinct:
  "distinct (map fst m) \<Longrightarrow> (k, v) \<in> set m \<Longrightarrow> propertyValue m k = v"
proof -
  assume d: "distinct (map fst m)" and i: "(k, v) \<in> set m"
  have "distinct (map fst (rev m))" using d by (simp add: rev_map [symmetric])
  then have "map_of (rev m) k = Some v" using i by (simp add: map_of_eq_Some_iff)
  then show ?thesis by (simp add: propertyValue_def)
qed

lemma find_pairs_keys:
  "distinct (map fst m) \<Longrightarrow> set m \<subseteq> set mm \<Longrightarrow> distinct (map fst mm) \<Longrightarrow>
   (case find (\<lambda>k. P k) (map fst m) of Some k \<Rightarrow> propertyValue mm k | None \<Rightarrow> d) =
   (case find (\<lambda>(k, v). P k) m of Some (k, v) \<Rightarrow> v | None \<Rightarrow> d)"
  by (induction m) (auto simp: propertyValue_distinct)

lemma objectKeys_set: "set (objectKeys m) = fst ` set m"
  by (auto simp: objectKeys_def firstOccurrences_def Let_def)


lemma propertyValue_in:
  assumes "k \<in> fst ` set m"
  shows "propertyValue m k \<in> snd ` set m"
proof -
  from assms have "map_of (rev m) k \<noteq> None"
    by (simp add: map_of_eq_None_iff)
  then obtain v where v: "map_of (rev m) k = Some v" by blast
  then have "(k, v) \<in> set m" using map_of_SomeD [OF v] by simp
  then show ?thesis using v by (force simp: propertyValue_def)
qed

lemma find_Some_in_set: "find P xs = Some x \<Longrightarrow> x \<in> set xs"
  by (induction xs) (auto split: if_splits)

text \<open>
  Claim C7, as amended. The resolver always returns an id, the default one or a configured
  one. It walks the keywords in the key enumeration order of the mapping object (keywords
  that are array indices first, in ascending numeric order, then the others in the order
  they are written) and returns the id of the first keyword that occurs in the topic, both
  lower-cased, or the default id when none occurs. When no keyword is an array index and no
  keyword is written twice, that order is the configured order, and the resolver returns
  what the first matching configured pair says.
\<close>

theorem getDestinationFolderId_first_match:
  "getDestinationFolderId cfg meetingTopic \<in>
     insert (DEFAULT_FOLDER_ID cfg) (snd ` set (FOLDER_MAPPING cfg)) \<and>
   (case find (\<lambda>k. sublist (toLowerCase k) (toLowerCase meetingTopic))
            (objectKeys (FOLDER_MAPPING cfg)) of
      Some k \<Rightarrow> getDestinationFolderId cfg meetingTopic = propertyValue (FOLDER_MAPPING cfg) k
    | None \<Rightarrow> getDestinationFolderId cfg meetingTopic = DEFAULT_FOLDER_ID cfg) \<and>
   ((\<forall>k \<in> set (map fst (FOLDER_MAPPING cfg)). \<not> isArrayIndex k) \<and>
    distinct (map fst (FOLDER_MAPPING cfg)) \<longrightarrow>
    getDestinationFolderId cfg meetingTopic = spec_resolve cfg meetingTopic)"
proof (intro conjI impI)
  show "getDestinationFolderId cfg meetingTopic \<in>
     insert (DEFAULT_FOLDER_ID cfg) (snd ` set (FOLDER_MAPPING cfg))"
  proof (cases "find (\<lambda>k. includes_str (toLowerCase meetingTopic) (toLowerCase k))
            (objectKeys (FOLDER_MAPPING cfg))")
    case None
    then show ?thesis by (simp add: getDestinationFolderId_def routeLoop_find)
  next
    case (Some k)
    then have "k \<in> fst ` set (FOLDER_MAPPING cfg)"
      using find_Some_in_set [OF Some] by (simp add: objectKeys_set)
    then show ?thesis
      using Some by (simp add: getDestinationFolderId_def routeLoop_find propertyValue_in)
  qed
next
  show "case find (\<lambda>k. sublist (toLowerCase k) (toLowerCase meetingTopic))
            (objectKeys (FOLDER_MAPPING cfg)) of
      Some k \<Rightarrow> getDestinationFolderId cfg meetingTopic = propertyValue (FOLDER_MAPPING cfg) k
    | None \<Rightarrow> getDestinationFolderId cfg meetingTopic = DEFAULT_FOLDER_ID cfg"
    by (simp add: getDestinationFolderId_def routeLoop_find includes_sublist
        split: option.split)
next
  assume a: "(\<forall>k \<in> set (map fst (FOLDER_MAPPING cfg)). \<not> isArrayIndex k) \<and>
    distinct (map fst (FOLDER_MAPPING cfg))"
  then have keys: "objectKeys (FOLDER_MAPPING cfg) = map fst (FOLDER_MAPPING cfg)"
    by (simp add: objectKeys_plain)
  show "getDestinationFolderId cfg meetingTopic = spec_resolve cfg meetingTopic"
    using a find_pairs_keys [where m = "FOLDER_MAPPING cfg" and mm = "FOLDER_MAPPING cfg"
        and P = "\<lambda>k. includes_str (toLowerCase meetingTopic) (toLowerCase k)"
        and d = "DEFAULT_FOLDER_ID cfg"]
    by (simp add: getDestinationFolderId_def routeLoop_find keys spec_resolve_def
        includes_sublist)
qed

theorem getDestinationFolderId_first_match_witness:
  "getDestinationFolderId plainRouting ''Weekly Operations Sync'' = ''F1'' \<and>
   spec_resolve plainRouting ''Weekly Operations Sync'' = ''F1''"
proof -
  have k: "(\<forall>k \<in> set (map fst (FOLDER_MAPPING plainRouting)). \<not> isArrayIndex k) \<and>
    distinct (map fst (FOLDER_MAPPING plainRouting))"
    by code_simp
  have s: "spec_resolve plainRouting ''Weekly Operations Sync'' = ''F1''"
    by code_simp
  from getDestinationFolderId_first_match
         [where meetingTopic = "''Weekly Operations Sync''" and cfg = plainRouting] k s
  show ?thesis by simp
qed

text \<open>
  Claim C7 as stated fails: with the mapping written as \<open>{"ops": "F1", "2024": "F2"}\<close>
  and the topic \<open>Ops 2024\<close>, both keywords occur, the first configured pair says \<open>F1\<close>,
  and the resolver returns \<open>F2\<close>, because the key \<open>2024\<close> is enumerated first.
\<close>

theorem getDestinationFolderId_configured_order_counterexample:
  "getDestinationFolderId routingExample ''Ops 2024'' = ''F2'' \<and>
   spec_resolve routingExample ''Ops 2024'' = ''F1''"
  by code_simp

section \<open>Date windows: proofs\<close>


lemma numChunks_ceiling:
  "30 * (numChunks cfg - 1) < DAYS_TO_FETCH cfg \<and> DAYS_TO_FETCH cfg \<le> 30 * numChunks cfg"
  unfolding numChunks_def by presburger

lemma length_fetchWindows: "int (length (fetchWindows cfg today)) = max 0 (numChunks cfg)"
  by (simp add: fetchWindows_def)

lemma fetchWindows_nth:
  "i < length (fetchWindows cfg today) \<Longrightarrow>
   fetchWindows cfg today ! i =
     (max (today - DAYS_TO_FETCH cfg) (today - 30 * int i - 30), today - 30 * int i)"
  by (simp add: fetchWindows_def chunkWindow_def Let_def max_def)

text \<open>
  Claim C6, as amended. For a lookback of \<open>d\<close> days the fetch walks backward from today in
  \<open>n\<close> windows, where \<open>n\<close> is the ceiling of \<open>d / 30\<close> for a positive \<open>d\<close> (one window for
  1 to 30 days, two for 31 to 60) and none at all when \<open>d\<close> is zero or negative. Window
  \<open>i\<close> ends \<open>30 * i\<close> days before today and starts 30 days earlier, clamped to the
  requested start \<open>today - d\<close>; no window starts before it, and the earliest window starts
  exactly there.
\<close>

theorem fetchWindows_count_and_clamp:
  "(let d = DAYS_TO_FETCH cfg; ws = fetchWindows cfg today; n = int (length ws)
    in (0 < d \<longrightarrow> 30 * (n - 1) < d \<and> d \<le> 30 * n) \<and>
       (d \<le> 0 \<longrightarrow> ws = []) \<and>
       (1 \<le> d \<and> d \<le> 30 \<longrightarrow> length ws = 1) \<and>
       (31 \<le> d \<and> d \<le> 60 \<longrightarrow> length ws = 2) \<and>
       (\<forall>i < length ws.
          snd (ws ! i) = today - 30 * int i \<and>
          fst (ws ! i) = max (today - d) (snd (ws ! i) - 30) \<and>
          today - d \<le> fst (ws ! i) \<and> fst (ws ! i) \<le> snd (ws ! i)) \<and>
       (ws \<noteq> [] \<longrightarrow> fst (last ws) = today - d))"
proof -
  define d where "d = DAYS_TO_FETCH cfg"
  define ws where "ws = fetchWindows cfg today"
  define n where "n = int (length ws)"
  have nmax: "n = max 0 (numChunks cfg)"
    by (simp add: n_def ws_def length_fetchWindows)
  have ceil: "30 * (numChunks cfg - 1) < d \<and> d \<le> 30 * numChunks cfg"
    using numChunks_ceiling [of cfg] by (simp add: d_def)
  have pos: "0 < d \<Longrightarrow> n = numChunks cfg" using nmax ceil by linarith
  have c1: "0 < d \<longrightarrow> 30 * (n - 1) < d \<and> d \<le> 30 * n" using pos ceil by auto
  have n0: "d \<le> 0 \<Longrightarrow> n = 0" using nmax ceil by (auto simp: max_def)
  have c2: "d \<le> 0 \<longrightarrow> ws = []" using n0 by (auto simp: n_def)
  have c3: "1 \<le> d \<and> d \<le> 30 \<longrightarrow> length ws = 1" using c1 by (auto simp: n_def)
  have c4: "31 \<le> d \<and> d \<le> 60 \<longrightarrow> length ws = 2" using c1 by (auto simp: n_def)
  have nth: "\<And>i. i < length ws \<Longrightarrow>
      ws ! i = (max (today - d) (today - 30 * int i - 30), today - 30 * int i)"
    by (simp add: ws_def d_def fetchWindows_nth)
  have bound: "\<And>i. i < length ws \<Longrightarrow> 30 * int i < d"
  proof -
    fix i assume i: "i < length ws"
    then have "int i \<le> n - 1" by (simp add: n_def)
    then have "30 * int i \<le> 30 * (n - 1)" by simp
    moreover have "0 < n" using i by (auto simp: n_def)
    then have "0 < d" using n0 by (cases "0 < d") auto
    then have "30 * (n - 1) < d" using c1 by simp
    ultimately show "30 * int i < d" by (rule le_less_trans)
  qed
  have c5: "\<forall>i < length ws.
          snd (ws ! i) = today - 30 * int i \<and>
          fst (ws ! i) = max (today - d) (snd (ws ! i) - 30) \<and>
          today - d \<le> fst (ws ! i) \<and> fst (ws ! i) \<le> snd (ws ! i)"
    using nth bound by (auto simp: max_def dest!: bound)
  have c6: "ws \<noteq> [] \<longrightarrow> fst (last ws) = today - d"
  proof
    assume ne: "ws \<noteq> []"
    then have l: "last ws = ws ! (length ws - 1)" by (simp add: last_conv_nth)
    have lt: "length ws - 1 < length ws" using ne by simp
    have "0 < n" using ne by (auto simp: n_def)
    then have "0 < d" using n0 by (cases "0 < d") auto
    then have "d \<le> 30 * n" using c1 by simp
    moreover have "int (length ws - 1) = n - 1" using ne by (simp add: n_def Suc_leI)
    ultimately show "fst (last ws) = today - d"
      using nth [OF lt] l by (simp add: max_def)
  qed
  show ?thesis
    using c1 c2 c3 c4 c5 c6 unfolding Let_def d_def [symmetric] ws_def [symmetric] n_def [symmetric]
    by blast
qed


theorem fetchWindows_count_and_clamp_witness:
  "length (fetchWindows (lookback 45) 19000) = 2 \<and>
   fst (last (fetchWindows (lookback 45) 19000)) = 18955"
proof -
  have d: "DAYS_TO_FETCH (lookback 45) = 45" by (simp add: lookback_def)
  have ne: "fetchWindows (lookback 45) 19000 \<noteq> []" by code_simp
  show ?thesis
    using fetchWindows_count_and_clamp [of "lookback 45" 19000] ne by (simp add: Let_def d)
qed

text \<open>
  Claim C6 as stated fails for a lookback of zero days: the range is at most 30 days long,
  and the fetch issues no window at all.
\<close>

theorem fetchWindows_zero_days_counterexample:
  "DAYS_TO_FETCH (lookback 0) \<le> 30 \<and> fetchWindows (lookback 0) 19000 = []"
  by code_simp

section \<open>Summary fetching: proofs\<close>


lemma count_list_append: "count_list (xs @ ys) x = count_list xs x + count_list ys x"
  by (induction xs) auto

lemma count_list_repeat:
  "count_list (concat (replicate n xs)) x = n * count_list xs x"
  by (induction n) (auto simp: count_list_append)

lemma summariesPresented_repeat:
  assumes "getZoomSummariesForUser fuel cfg srv today tok u = Some (sent, ss)"
  shows "summariesPresented fuel cfg srv today tok users =
           Some (concat (replicate (length users) sent), concat (replicate (length users) ss))"
proof (induction users)
  case Nil
  show ?case by simp
next
  case (Cons user users)
  have "getZoomSummariesForUser fuel cfg srv today tok (user_id user) = Some (sent, ss)"
    using assms by (simp add: getZoomSummariesForUser_def)
  then show ?case using Cons.IH by simp
qed

text \<open>
  Claim C10. The summary fetch for a member sends the same requests and returns the same
  list whatever the user id is: the id is in no request. So, when the fetch for one member
  returns, the run sends that member's requests once per enumerated member, and hands each
  summary to the orchestrator once per enumerated member.
\<close>

theorem getZoomSummariesForUser_ignores_user:
  "getZoomSummariesForUser fuel cfg srv today tok u1 =
     getZoomSummariesForUser fuel cfg srv today tok u2 \<and>
   (getZoomSummariesForUser fuel cfg srv today tok u1 = Some (sent, ss) \<longrightarrow>
      summariesPresented fuel cfg srv today tok users =
        Some (concat (replicate (length users) sent), concat (replicate (length users) ss)) \<and>
      (\<forall>x. count_list (concat (replicate (length users) ss)) x =
             length users * count_list ss x))"
  using summariesPresented_repeat [of fuel cfg srv today tok u1 sent ss users]
  by (simp add: getZoomSummariesForUser_def count_list_repeat)

theorem getZoomSummariesForUser_ignores_user_witness:
  "summariesPresented 5 (lookback 2) onePageServer 19000 ''tok'' [userA, userB] =
     Some ([(18998, 19000, []), (18998, 19000, [])], [sum1, sum1])"
proof -
  have f: "getZoomSummariesForUser 5 (lookback 2) onePageServer 19000 ''tok'' (user_id userA) =
      Some ([(18998, 19000, [])], [sum1])"
    by code_simp
  from getZoomSummariesForUser_ignores_user [of 5 "lookback 2" onePageServer 19000 "''tok''" "user_id userA" "user_id userB"
      "[(18998, 19000, [])]" "[sum1]" "[userA, userB]"] f
  have "summariesPresented 5 (lookback 2) onePageServer 19000 ''tok'' [userA, userB] =
      Some (concat (replicate (length [userA, userB]) [(18998, 19000, [])]),
            concat (replicate (length [userA, userB]) [sum1]))"
    by (simp del: summariesPresented.simps)
  then show ?thesis by (simp del: summariesPresented.simps add: numeral_2_eq_2)
qed

section \<open>Pagination failures: evaluation\<close>

text \<open>
  Claim C8 at a failing input. The first page of a window holds one item and announces a
  second page, and the request for the second page throws. The recording fetch for the
  window throws, and \<open>getZoomRecordingsForUser\<close> returns the empty list: the item of the
  first page is lost. The summary fetch, on the same responses, returns the item of the
  first page.
\<close>

theorem getZoomRecordingsForUser_request_failure:
  "fetchRecordingsForDateRange 5 failingServer ''tok'' ''idA'' 18998 19000 = Some Thrown \<and>
   getZoomRecordingsForUser 5 (lookback 2) failingServer 19000 ''tok'' ''idA'' = Some [] \<and>
   getZoomSummariesForUser 5 (lookback 2) failingServer 19000 ''tok'' ''idA'' =
     Some ([(18998, 19000, []), (18998, 19000, ''p2'')], [sum1])"
  by code_simp

section \<open>Transcript formatter: proofs\<close>


lemma split_str_nonempty: "split_str c s \<noteq> []"
  by (induction s) (auto split: list.splits)

lemma split_str_first:
  "split_str c s =
     takeWhile (\<lambda>x. x \<noteq> c) s #
       (if c \<in> set s then split_str c (drop 1 (dropWhile (\<lambda>x. x \<noteq> c) s)) else [])"
proof (induction s)
  case Nil
  show ?case by simp
next
  case (Cons x xs)
  show ?case
  proof (cases "x = c")
    case True
    then show ?thesis by simp
  next
    case False
    then show ?thesis using Cons.IH by (simp split: list.splits)
  qed
qed

lemma join_split_str: "join_str [c] (split_str c s) = s"
proof (induction s)
  case Nil
  show ?case by simp
next
  case (Cons x xs)
  obtain w ws where w: "split_str c xs = w # ws"
    using split_str_nonempty [of c xs] by (cases "split_str c xs") auto
  show ?case
  proof (cases "x = c")
    case True
    then show ?thesis using Cons.IH w by simp
  next
    case False
    then show ?thesis using Cons.IH w by (cases ws) auto
  qed
qed

lemma includes_str_char: "includes_str s [c] \<longleftrightarrow> c \<in> set s"
  by (induction s) auto

lemma join_tail_split:
  assumes "c \<in> set s"
  shows "join_str [c] (tl (split_str c s)) = drop 1 (dropWhile (\<lambda>x. x \<noteq> c) s)"
proof -
  have "tl (split_str c s) = split_str c (drop 1 (dropWhile (\<lambda>x. x \<noteq> c) s))"
    using assms split_str_first [of c s] by (metis list.sel(3))
  then show ?thesis by (simp add: join_split_str)
qed

lemma transcriptStep_entry:
  "transcriptStep st rawLine =
     (if skippedLine (trim rawLine) then st
      else case spec_entry (trim rawLine) of None \<Rightarrow> st | Some e \<Rightarrow> pushEntry st e)"
proof (cases "CHR '':'' \<in> set (trim rawLine)")
  case False
  then show ?thesis
    by (simp add: transcriptStep_def spec_entry_def includes_str_char Let_def)
next
  case True
  have hd: "split_str CHR '':'' (trim rawLine) =
      takeWhile (\<lambda>x. x \<noteq> CHR '':'') (trim rawLine) # tl (split_str CHR '':'' (trim rawLine))"
    using split_str_first [of "CHR '':''" "trim rawLine"] by (metis list.sel(3))
  have tl: "join_str '':'' (tl (split_str CHR '':'' (trim rawLine))) =
      drop 1 (dropWhile (\<lambda>x. x \<noteq> CHR '':'') (trim rawLine))"
    using join_tail_split [OF True] by simp
  obtain parts where sp: "split_str CHR '':'' (trim rawLine) =
      takeWhile (\<lambda>x. x \<noteq> CHR '':'') (trim rawLine) # parts"
    and tx: "join_str '':'' parts = drop 1 (dropWhile (\<lambda>x. x \<noteq> CHR '':'') (trim rawLine))"
    using hd tl by blast
  show ?thesis
    using True
    by (simp add: transcriptStep_def spec_entry_def includes_str_char Let_def pushEntry_def
        sp tx)
qed

lemma foldl_transcriptStep:
  "foldl transcriptStep st lines =
     foldl pushEntry st
       (List.map_filter spec_entry (filter (\<lambda>line. \<not> skippedLine line) (map trim lines)))"
  by (induction lines arbitrary: st)
     (auto simp: transcriptStep_entry List.map_filter_simps split: option.splits)

lemma spec_entry_speaker: "spec_entry line = Some (s, t) \<Longrightarrow> s \<noteq> [] \<and> t \<noteq> []"
  by (auto simp: spec_entry_def Let_def split: if_splits)

lemma spec_merge_head:
  "\<exists>ts gs. spec_merge ((s, t) # es) = (s, ts) # gs"
  by (auto split: list.splits)

lemma spec_merge_run:
  "sts \<noteq> [] \<Longrightarrow>
   spec_merge (map (Pair s) sts @ es) =
     (case spec_merge es of
        [] \<Rightarrow> [(s, sts)]
      | (s', ts) # gs \<Rightarrow> (if s' = s then (s, sts @ ts) # gs else (s, sts) # (s', ts) # gs))"
proof (induction sts)
  case Nil
  then show ?case by simp
next
  case (Cons a sts)
  show ?case
  proof (cases "sts = []")
    case True
    then show ?thesis by (auto split: list.splits)
  next
    case False
    then show ?thesis using Cons.IH by (auto split: list.splits)
  qed
qed

lemma flush_foldl_pushEntry:
  assumes "currentSpeaker st = Some s" and "s \<noteq> []" and "currentStatement st \<noteq> []"
    and "\<forall>e \<in> set es. fst e \<noteq> []"
  shows "flushStatement (foldl pushEntry st es) =
           plainText st @
           map spec_paragraph (spec_merge (map (Pair s) (currentStatement st) @ es))"
  using assms
proof (induction es arbitrary: st s)
  case Nil
  then show ?case
    using spec_merge_run [of "currentStatement st" s "[]"]
    by (simp add: flushStatement_def spec_paragraph_def)
next
  case (Cons e es)
  obtain s' t where e: "e = (s', t)" by (cases e)
  show ?case
  proof (cases "s' = s")
    case True
    let ?st = "st \<lparr> currentStatement := currentStatement st @ [t] \<rparr>"
    have p: "pushEntry st e = ?st" using Cons.prems(1) True e by (simp add: pushEntry_def)
    have "flushStatement (foldl pushEntry ?st es) =
            plainText ?st @
            map spec_paragraph (spec_merge (map (Pair s) (currentStatement ?st) @ es))"
      using Cons.prems by (intro Cons.IH) auto
    then show ?thesis using p True e by simp
  next
    case False
    let ?st = "\<lparr> plainText = flushStatement st, currentSpeaker = Some s',
                 currentStatement = [t] \<rparr>"
    have p: "pushEntry st e = ?st" using Cons.prems(1) False e by (simp add: pushEntry_def)
    have ne: "s' \<noteq> []" using Cons.prems(4) e by simp
    have ih: "flushStatement (foldl pushEntry ?st es) =
            plainText ?st @
            map spec_paragraph (spec_merge (map (Pair s') (currentStatement ?st) @ es))"
      using Cons.prems ne by (intro Cons.IH) auto
    obtain ts gs where h: "spec_merge ((s', t) # es) = (s', ts) # gs"
      using spec_merge_head by blast
    have m: "spec_merge (map (Pair s) (currentStatement st) @ e # es) =
        (s, currentStatement st) # spec_merge ((s', t) # es)"
      using Cons.prems(3) False h e by (simp add: spec_merge_run del: spec_merge.simps)
    have f: "flushStatement st = plainText st @ [spec_paragraph (s, currentStatement st)]"
      using Cons.prems by (simp add: flushStatement_def spec_paragraph_def)
    show ?thesis using p ih m f by (simp del: spec_merge.simps)
  qed
qed

lemma flush_foldl_initial:
  assumes "\<forall>e \<in> set es. fst e \<noteq> []"
  shows "flushStatement (foldl pushEntry
           \<lparr> plainText = [], currentSpeaker = None, currentStatement = [] \<rparr> es) =
         map spec_paragraph (spec_merge es)"
proof (cases es)
  case Nil
  then show ?thesis by (simp add: flushStatement_def)
next
  case (Cons e es')
  obtain s t where e: "e = (s, t)" by (cases e)
  let ?st = "\<lparr> plainText = [], currentSpeaker = Some s, currentStatement = [t] \<rparr>"
  have p: "pushEntry \<lparr> plainText = [], currentSpeaker = None, currentStatement = [] \<rparr> e = ?st"
    using e by (simp add: pushEntry_def flushStatement_def)
  have "flushStatement (foldl pushEntry ?st es') =
      plainText ?st @ map spec_paragraph (spec_merge (map (Pair s) (currentStatement ?st) @ es'))"
    using assms Cons e by (intro flush_foldl_pushEntry) auto
  then show ?thesis using p Cons e by (simp del: spec_merge.simps)
qed

lemma spec_entries_speakers: "\<forall>e \<in> set (spec_entries vtt). fst e \<noteq> [] \<and> snd e \<noteq> []"
  by (auto simp: spec_entries_def List.map_filter_def dest: spec_entry_speaker)

lemma transcriptText_spec: "transcriptText vtt = spec_render (spec_merge (spec_entries vtt))"
  using spec_entries_speakers [of vtt]
  by (simp add: transcriptText_def Let_def foldl_transcriptStep spec_render_def
      flush_foldl_initial spec_entries_def [symmetric])

lemma spec_merge_concat:
  "concat (map (\<lambda>g. map (Pair (fst g)) (snd g)) (spec_merge es)) = es"
  by (induction es rule: spec_merge.induct) (auto split: list.splits)

lemma spec_merge_nonempty: "\<forall>g \<in> set (spec_merge es). snd g \<noteq> []"
proof (induction es rule: spec_merge.induct)
  case 1
  show ?case by simp
next
  case (2 speaker statement rest)
  then show ?case by (cases "spec_merge rest") auto
qed

lemma spec_merge_distinct_adj: "distinct_adj (map fst (spec_merge es))"
  by (induction es rule: spec_merge.induct) (auto split: list.splits)


text \<open>
  Claim C5. The text that \<open>convertTranscriptToText\<close> writes is the rendering of the merged
  entries: the lines are trimmed, header, timestamp, sequence-number and blank lines are
  dropped, each remaining line is split on its first colon into a trimmed speaker and a
  trimmed statement, and lines without a colon or with an empty side give no entry. The
  merged groups, read in order, hold exactly the entries; neighbouring groups have
  different speakers and no group is empty, so each group is a maximal run of one speaker.
  A group is rendered as the speaker, a colon and a space, and the statements joined by
  single spaces; groups are joined by a blank line. The example of the specification
  evaluates to the stated text. A line that is dropped leaves the loop state as it is.
\<close>

theorem convertTranscriptToText_merges_runs:
  "snd (convertTranscriptToText vtt fileName) = spec_render (spec_merge (spec_entries vtt)) \<and>
   concat (map (\<lambda>g. map (Pair (fst g)) (snd g)) (spec_merge (spec_entries vtt))) =
     spec_entries vtt \<and>
   distinct_adj (map fst (spec_merge (spec_entries vtt))) \<and>
   (\<forall>g \<in> set (spec_merge (spec_entries vtt)). snd g \<noteq> []) \<and>
   snd (convertTranscriptToText captionExample fileName) = captionExampleText \<and>
   (CHR '':'' \<notin> set line \<or>
    trim (takeWhile (\<lambda>c. c \<noteq> CHR '':'') line) = [] \<or>
    trim (drop 1 (dropWhile (\<lambda>c. c \<noteq> CHR '':'') line)) = [] \<longrightarrow> spec_entry line = None) \<and>
   (skippedLine (trim rawLine) \<or> spec_entry (trim rawLine) = None \<longrightarrow>
    transcriptStep st rawLine = st)"
proof (intro conjI)
  show "snd (convertTranscriptToText vtt fileName) =
      spec_render (spec_merge (spec_entries vtt))"
    by (simp add: convertTranscriptToText_def transcriptText_spec)
  show "concat (map (\<lambda>g. map (Pair (fst g)) (snd g)) (spec_merge (spec_entries vtt))) =
     spec_entries vtt"
    by (rule spec_merge_concat)
  show "distinct_adj (map fst (spec_merge (spec_entries vtt)))"
    by (rule spec_merge_distinct_adj)
  show "\<forall>g \<in> set (spec_merge (spec_entries vtt)). snd g \<noteq> []"
    by (rule spec_merge_nonempty)
  have "transcriptText captionExample = captionExampleText" by code_simp
  then show "snd (convertTranscriptToText captionExample fileName) = captionExampleText"
    by (simp add: convertTranscriptToText_def)
  show "CHR '':'' \<notin> set line \<or>
    trim (takeWhile (\<lambda>c. c \<noteq> CHR '':'') line) = [] \<or>
    trim (drop 1 (dropWhile (\<lambda>c. c \<noteq> CHR '':'') line)) = [] \<longrightarrow> spec_entry line = None"
    by (auto simp: spec_entry_def Let_def)
  show "skippedLine (trim rawLine) \<or> spec_entry (trim rawLine) = None \<longrightarrow>
    transcriptStep st rawLine = st"
    by (auto simp: transcriptStep_entry)
qed

theorem convertTranscriptToText_merges_runs_witness:
  "snd (convertTranscriptToText captionExample ''a.vtt'') = captionExampleText \<and>
   spec_entry ''no colon here'' = None \<and>
   transcriptStep initialTranscript '' : no speaker here'' = initialTranscript"
proof -
  have c: "CHR '':'' \<notin> set ''no colon here''" by simp
  have e: "spec_entry (trim '' : no speaker here'') = None" by code_simp
  from convertTranscriptToText_merges_runs
         [where vtt = captionExample and fileName = "''a.vtt''" and line = "''no colon here''"
            and rawLine = "'' : no speaker here''" and st = initialTranscript] c e
  show ?thesis by blast
qed

section \<open>Dedup lookups: proofs\<close>


lemma recordingRows_ex:
  "recordingRows t d rs \<longleftrightarrow>
     list_ex (\<lambda>r. cellAt r 0 = TextCell t \<and> cellAt r 1 = TextCell d) rs"
  by (induction rs) auto

lemma summaryRows_ex:
  "summaryRows t d rs \<longleftrightarrow>
     list_ex (\<lambda>r. cellAt r 0 = TextCell t \<and> normalizedDate (cellAt r 1) = TextCell d \<and>
                  cellAt r 2 = TextCell ''AI Summary'') rs"
  by (induction rs) (auto simp: Let_def)

lemma rowKind_summary: "rowKind r = SummaryKind \<longleftrightarrow> cellAt r 2 = TextCell ''AI Summary''"
  by (simp add: rowKind_def)

lemma normalizedDate_text: "isTextCell c \<Longrightarrow> normalizedDate c = c"
  by (cases c) (auto simp: isTextCell_def normalizedDate_def)

lemma kind_cases: "k = RecordingKind \<or> k = SummaryKind"
  by (cases k) auto

text \<open>
  Claim C4, as amended. The summary lookup returns true exactly when a row of the summary
  kind holds the topic and the date: the file-types cell must be the marker
  \<open>AI Summary\<close>, so a ledger with rows of the recording kind only gives false. The
  recording lookup does not look at the file-types cell: on a ledger whose date cells are
  texts it returns true exactly when a row of either kind holds the topic and the date.
\<close>

theorem dedup_lookup_semantics:
  "(isSummaryProcessed t d data \<longleftrightarrow> spec_present SummaryKind t d data) \<and>
   ((\<forall>r \<in> set (drop 1 data). isTextCell (cellAt r 1)) \<longrightarrow>
      (isRecordingProcessed t d data \<longleftrightarrow>
         spec_present RecordingKind t d data \<or> spec_present SummaryKind t d data)) \<and>
   ((\<forall>r \<in> set (drop 1 data). rowKind r = RecordingKind) \<longrightarrow>
      \<not> isSummaryProcessed t d data)"
proof (intro conjI impI)
  show s: "isSummaryProcessed t d data \<longleftrightarrow> spec_present SummaryKind t d data"
    by (simp add: isSummaryProcessed_def summaryRows_ex spec_present_def
        rowKind_summary)
  show "\<not> isSummaryProcessed t d data"
    if "\<forall>r \<in> set (drop 1 data). rowKind r = RecordingKind"
    using that unfolding s by (auto simp: spec_present_def list_ex_iff)
  show "isRecordingProcessed t d data \<longleftrightarrow>
         spec_present RecordingKind t d data \<or> spec_present SummaryKind t d data"
    if a: "\<forall>r \<in> set (drop 1 data). isTextCell (cellAt r 1)"
  proof -
    have "isRecordingProcessed t d data \<longleftrightarrow>
        (\<exists>r \<in> set (drop 1 data). cellAt r 0 = TextCell t \<and> cellAt r 1 = TextCell d)"
      by (simp add: isRecordingProcessed_def recordingRows_ex list_ex_iff)
    also have "\<dots> \<longleftrightarrow>
        (\<exists>r \<in> set (drop 1 data). cellAt r 0 = TextCell t \<and>
            normalizedDate (cellAt r 1) = TextCell d)"
      using a by (auto simp: normalizedDate_text)
    also have "\<dots> \<longleftrightarrow>
        spec_present RecordingKind t d data \<or> spec_present SummaryKind t d data"
      using kind_cases by (auto simp: spec_present_def list_ex_iff)
    finally show ?thesis .
  qed
qed

theorem dedup_lookup_semantics_witness:
  "isRecordingProcessed ''Standup'' ''Unknown Date'' mixedSheet \<and>
   \<not> isSummaryProcessed ''Standup'' ''Unknown Date'' mixedSheet \<and>
   isSummaryProcessed ''Retro'' ''Unknown Date'' mixedSheet"
proof -
  have a: "\<forall>r \<in> set (drop 1 mixedSheet). isTextCell (cellAt r 1)" by code_simp
  have b: "spec_present RecordingKind ''Standup'' ''Unknown Date'' mixedSheet" by code_simp
  have c: "\<not> spec_present SummaryKind ''Standup'' ''Unknown Date'' mixedSheet" by code_simp
  have d: "spec_present SummaryKind ''Retro'' ''Unknown Date'' mixedSheet" by code_simp
  show ?thesis
    using dedup_lookup_semantics [of "''Standup''" "''Unknown Date''" mixedSheet]
      dedup_lookup_semantics [of "''Retro''" "''Unknown Date''" mixedSheet] a b c d
    by blast
qed

text \<open>
  Claim C4 as stated fails for the recording kind: on a ledger whose only row is the
  summary row of a topic, the recording lookup for that topic and date returns true,
  though no row of the recording kind is present.
\<close>

theorem recording_lookup_ignores_kind_counterexample:
  "isRecordingProcessed ''Standup'' ''Unknown Date'' undatedSummarySheet \<and>
   \<not> spec_present RecordingKind ''Standup'' ''Unknown Date'' undatedSummarySheet"
  by code_simp

text \<open>
  Claim C3 at a failing input. The stored meeting date is the date 2024-03-15 and the
  queried date is \<open>2024-03-15\<close>: the recording lookup compares the cell as it is and
  returns false, where the summary lookup formats the date first and returns true. A
  stored text \<open>03-15-2024\<close>, the form in which the date is written, is compared as it is
  by both lookups.
\<close>

theorem isRecordingProcessed_compares_unnormalized:
  "isRecordingProcessed ''Standup'' ''2024-03-15'' datedSheet = False \<and>
   isSummaryProcessed ''Standup'' ''2024-03-15'' datedSheet = True \<and>
   isRecordingProcessed ''Standup'' ''2024-03-15'' textSheet = False \<and>
   isSummaryProcessed ''Standup'' ''2024-03-15'' textSheet = False"
  by code_simp

section \<open>Topic prefix: proofs\<close>


lemma replaceLiteralPrefix_bar:
  "isWhiteSpace a \<Longrightarrow> isWhiteSpace c \<Longrightarrow>
   replaceLiteralPrefix p (p @ a # CHR ''|'' # c # rest) = rest"
  by (simp add: replaceLiteralPrefix_def)

lemma replaceLiteralPrefix_space:
  "isWhiteSpace a \<Longrightarrow> \<not> (\<exists>c rest'. rest = CHR ''|'' # c # rest' \<and> isWhiteSpace c) \<Longrightarrow>
   replaceLiteralPrefix p (p @ a # rest) = rest"
  by (auto simp: replaceLiteralPrefix_def split: list.splits)

lemma replaceLiteralPrefix_other:
  "\<not> isWhiteSpace a \<Longrightarrow> replaceLiteralPrefix p (p @ a # rest) = p @ a # rest"
  by (auto simp: replaceLiteralPrefix_def split: list.splits)

lemma replaceLiteralPrefix_exact: "replaceLiteralPrefix p p = p"
  by (simp add: replaceLiteralPrefix_def)

lemma stripTopicPrefix_literal:
  "TOPIC_PREFIX_TO_REMOVE cfg = p \<Longrightarrow> p \<noteq> [] \<Longrightarrow> patternLiteral p \<Longrightarrow>
   stripTopicPrefix cfg e (p @ rest) = Returned (replaceLiteralPrefix p (p @ rest))"
  by (simp add: stripTopicPrefix_def)

lemma processRecording_skip:
  "recordingTopic cfg e r = Returned t \<Longrightarrow>
   isRecordingProcessed t (datePart (start_time r)) (trackingSheet w) \<Longrightarrow>
   processRecording cfg e r tok w = w"
  by (simp add: processRecording_def)

lemma processFile_keeps:
  "folders (fst (processFile e tok f d t acc file)) = folders (fst acc)"
  by (auto simp: processFile_def storeFile_def Let_def split: option.splits reply.splits)

lemma foldl_processFile_folders:
  "folders (fst (foldl (processFile e tok f d t) acc files)) = folders (fst acc)"
  by (induction files arbitrary: acc) (auto simp: processFile_keeps)

lemma processRecording_folder:
  assumes "recordingTopic cfg e r = Returned t"
    and "\<not> isRecordingProcessed t (datePart (start_time r)) (trackingSheet w)"
    and "createDriveFolder e (datePart (start_time r) @ ''_'' @ t) (getDestinationFolderId cfg t)
           = Returned f"
  shows "folders (processRecording cfg e r tok w) =
           folders w @ [(getDestinationFolderId cfg t, datePart (start_time r) @ ''_'' @ t)]"
  using assms by (simp add: processRecording_def Let_def foldl_processFile_folders)

text \<open>
  Claim C9, as amended. For a configured prefix that is not empty and holds no character
  that is special in a regular expression, and a topic that starts with it: when the
  prefix is followed by a whitespace character, a vertical bar and a whitespace character,
  the prefix and these three characters are removed; otherwise, when it is followed by a
  whitespace character, the prefix and that character are removed; a topic equal to the
  prefix, and a topic in which another character follows the prefix, are unchanged.
  \<open>processRecording\<close> looks the resulting topic up in the ledger, returning at once when
  it is found, and names the folder after it.
\<close>

theorem stripTopicPrefix_separator:
  "TOPIC_PREFIX_TO_REMOVE cfg = p \<and> p \<noteq> [] \<and> patternLiteral p \<longrightarrow>
     (isWhiteSpace a \<and> isWhiteSpace c \<longrightarrow>
        stripTopicPrefix cfg e (p @ a # CHR ''|'' # c # rest) = Returned rest) \<and>
     (isWhiteSpace a \<and> \<not> (\<exists>c' rest'. rest = CHR ''|'' # c' # rest' \<and> isWhiteSpace c') \<longrightarrow>
        stripTopicPrefix cfg e (p @ a # rest) = Returned rest) \<and>
     (\<not> isWhiteSpace a \<longrightarrow> stripTopicPrefix cfg e (p @ a # rest) = Returned (p @ a # rest)) \<and>
     stripTopicPrefix cfg e p = Returned p \<and>
     (recordingTopic cfg e r = Returned t \<and>
      isRecordingProcessed t (datePart (start_time r)) (trackingSheet w) \<longrightarrow>
        processRecording cfg e r tok w = w) \<and>
     (recordingTopic cfg e r = Returned t \<and>
      \<not> isRecordingProcessed t (datePart (start_time r)) (trackingSheet w) \<and>
      createDriveFolder e (datePart (start_time r) @ ''_'' @ t) (getDestinationFolderId cfg t)
        = Returned f \<longrightarrow>
        folders (processRecording cfg e r tok w) =
          folders w @ [(getDestinationFolderId cfg t, datePart (start_time r) @ ''_'' @ t)])"
proof (intro impI conjI; (elim conjE)?)
  assume p: "TOPIC_PREFIX_TO_REMOVE cfg = p" "p \<noteq> []" "patternLiteral p"
  show "stripTopicPrefix cfg e (p @ a # CHR ''|'' # c # rest) = Returned rest"
    if "isWhiteSpace a" "isWhiteSpace c"
    using that p by (simp add: stripTopicPrefix_literal replaceLiteralPrefix_bar)
  show "stripTopicPrefix cfg e (p @ a # rest) = Returned rest"
    if "isWhiteSpace a" "\<not> (\<exists>c' rest'. rest = CHR ''|'' # c' # rest' \<and> isWhiteSpace c')"
    using that p by (simp add: stripTopicPrefix_literal replaceLiteralPrefix_space)
  show "stripTopicPrefix cfg e (p @ a # rest) = Returned (p @ a # rest)"
    if "\<not> isWhiteSpace a"
    using that p by (simp add: stripTopicPrefix_literal replaceLiteralPrefix_other)
  show "stripTopicPrefix cfg e p = Returned p"
    using p stripTopicPrefix_literal [of cfg p e "[]"]
    by (simp add: replaceLiteralPrefix_exact)
  show "processRecording cfg e r tok w = w"
    if "recordingTopic cfg e r = Returned t"
      "isRecordingProcessed t (datePart (start_time r)) (trackingSheet w)"
    using that by (rule processRecording_skip)
  show "folders (processRecording cfg e r tok w) =
          folders w @ [(getDestinationFolderId cfg t, datePart (start_time r) @ ''_'' @ t)]"
    if "recordingTopic cfg e r = Returned t"
      "\<not> isRecordingProcessed t (datePart (start_time r)) (trackingSheet w)"
      "createDriveFolder e (datePart (start_time r) @ ''_'' @ t) (getDestinationFolderId cfg t)
        = Returned f"
    using that by (rule processRecording_folder)
qed


theorem stripTopicPrefix_separator_witness:
  "stripTopicPrefix orgConfig textEnv ''Org | Sync'' = Returned ''Sync'' \<and>
   stripTopicPrefix orgConfig textEnv ''Org Sync'' = Returned ''Sync'' \<and>
   stripTopicPrefix orgConfig textEnv ''Org: Sync'' = Returned ''Org: Sync'' \<and>
   stripTopicPrefix orgConfig textEnv ''Org'' = Returned ''Org'' \<and>
   processRecording orgConfig textEnv orgUndated ''tok'' loggedWorld = loggedWorld \<and>
   folders (processRecording orgConfig textEnv orgRec ''tok'' emptyWorld) =
     [(''F0'', ''2024-03-15_Standup'')]"
proof -
  have p: "TOPIC_PREFIX_TO_REMOVE orgConfig = ''Org'' \<and> ''Org'' \<noteq> [] \<and> patternLiteral ''Org''"
    by code_simp
  have sp: "isWhiteSpace CHR '' ''" and co: "\<not> isWhiteSpace CHR '':''" by code_simp+
  have nb: "\<not> (\<exists>c' rest'. ''Sync'' = CHR ''|'' # c' # rest' \<and> isWhiteSpace c')" by simp
  have t1: "recordingTopic orgConfig textEnv orgUndated = Returned ''Standup''" by code_simp
  have l1: "isRecordingProcessed ''Standup'' (datePart (start_time orgUndated))
              (trackingSheet loggedWorld)"
    by code_simp
  have t2: "recordingTopic orgConfig textEnv orgRec = Returned ''Standup''" by code_simp
  have l2: "\<not> isRecordingProcessed ''Standup'' (datePart (start_time orgRec))
              (trackingSheet emptyWorld)"
    by code_simp
  have f2: "createDriveFolder textEnv (datePart (start_time orgRec) @ ''_'' @ ''Standup'')
              (getDestinationFolderId orgConfig ''Standup'') = Returned ''id-of-2024-03-15_Standup''"
    by code_simp
  have g2: "folders emptyWorld @ [(getDestinationFolderId orgConfig ''Standup'',
              datePart (start_time orgRec) @ ''_'' @ ''Standup'')] =
            [(''F0'', ''2024-03-15_Standup'')]"
    by code_simp
  note a = stripTopicPrefix_separator
      [where cfg = orgConfig and e = textEnv and p = "''Org''" and a = "CHR '' ''"
         and c = "CHR '' ''" and rest = "''Sync''" and r = orgUndated and t = "''Standup''"
         and w = loggedWorld and tok = "''tok''" and f = "''x''"]
  note b = stripTopicPrefix_separator
      [where cfg = orgConfig and e = textEnv and p = "''Org''" and a = "CHR '':''"
         and c = "CHR '' ''" and rest = "'' Sync''" and r = orgRec and t = "''Standup''"
         and w = emptyWorld and tok = "''tok''" and f = "''id-of-2024-03-15_Standup''"]
  have "stripTopicPrefix orgConfig textEnv (''Org'' @ CHR '' '' # CHR ''|'' # CHR '' '' # ''Sync'') =
      Returned ''Sync''"
    using a p sp by blast
  moreover have "stripTopicPrefix orgConfig textEnv (''Org'' @ CHR '' '' # ''Sync'') = Returned ''Sync''"
    using a p sp nb by blast
  moreover have "stripTopicPrefix orgConfig textEnv (''Org'' @ CHR '':'' # '' Sync'') =
      Returned (''Org'' @ CHR '':'' # '' Sync'')"
    using b p co by blast
  moreover have "stripTopicPrefix orgConfig textEnv ''Org'' = Returned ''Org''"
    using a p by blast
  moreover have "processRecording orgConfig textEnv orgUndated ''tok'' loggedWorld = loggedWorld"
    using a p t1 l1 by blast
  moreover have "folders (processRecording orgConfig textEnv orgRec ''tok'' emptyWorld) =
      folders emptyWorld @ [(getDestinationFolderId orgConfig ''Standup'',
              datePart (start_time orgRec) @ ''_'' @ ''Standup'')]"
    using b p t2 l2 f2 by blast
  ultimately show ?thesis using g2 by simp
qed

text \<open>
  Claim C9 as stated fails: with the prefix \<open>Org\<close>, a topic in which a tab follows the
  prefix starts neither with the prefix and a space nor with the prefix and the separator
  \<open> | \<close>, and the prefix and the tab are removed all the same.
\<close>

theorem stripTopicPrefix_tab_counterexample:
  "prefix ''Org'' (''Org'' @ [CHR 0x09] @ ''Sync'') \<and>
   \<not> prefix ''Org '' (''Org'' @ [CHR 0x09] @ ''Sync'') \<and>
   \<not> prefix ''Org | '' (''Org'' @ [CHR 0x09] @ ''Sync'') \<and>
   stripTopicPrefix orgConfig textEnv (''Org'' @ [CHR 0x09] @ ''Sync'') = Returned ''Sync''"
  by code_simp

section \<open>The deletion gate: proofs\<close>


lemma fileStep_refl: "fileStep acc acc"
  by (simp add: fileStep_def)

lemma fileStep_trans: "fileStep a b \<Longrightarrow> fileStep b c \<Longrightarrow> fileStep a c"
  by (auto simp: fileStep_def)

lemma storeFile_step: "fileStep acc (storeFile e folder name content acc)"
  by (auto simp: fileStep_def storeFile_def split: option.splits)

lemma processFile_step: "fileStep acc (processFile e tok f d t acc file)"
  by (auto simp: processFile_def Let_def fileStep_refl storeFile_step
      split: option.splits reply.splits)

lemma foldl_processFile_step: "fileStep acc (foldl (processFile e tok f d t) acc files)"
proof (induction files arbitrary: acc)
  case Nil
  show ?case by (simp add: fileStep_refl)
next
  case (Cons x files)
  show ?case
    using fileStep_trans [OF processFile_step Cons.IH] by simp
qed

lemma fileStep_initial:
  assumes "fileStep (w0, []) acc'"
  shows "trackingSheet (fst acc') = trackingSheet w0"
    and "deletions (fst acc') = deletions w0"
    and "snd acc' = [] \<longleftrightarrow> uploads (fst acc') = uploads w0"
  using assms by (auto simp: fileStep_def)

lemma fileTypesList_empty: "fileTypesList (join_str '', '' []) = []"
  by (simp add: fileTypesList_def)

lemma processRecording_reaches_gate:
  fixes tok :: string
  assumes t: "recordingTopic cfg e r = Returned t"
    and n: "\<not> isRecordingProcessed t (datePart (start_time r)) (trackingSheet w)"
    and f: "createDriveFolder e (datePart (start_time r) @ ''_'' @ t) (getDestinationFolderId cfg t)
           = Returned f"
  defines "result \<equiv>
     foldl (processFile e tok f (datePart (start_time r)) t)
       (w \<lparr> folders := folders w @ [(getDestinationFolderId cfg t,
                                     datePart (start_time r) @ ''_'' @ t)] \<rparr>, [])
       (recording_files r)"
  shows "deletions (processRecording cfg e r tok w) =
           (if DELETE_AFTER_TRANSFER cfg \<and> snd result \<noteq> []
            then deletions w @ [uuid r] else deletions w)"
    and "uploads (processRecording cfg e r tok w) = uploads (fst result)"
    and "trackingSheet (processRecording cfg e r tok w) =
           logTransferToSheet e (trackingSheet w) t (datePart (start_time r))
             (join_str '', '' (snd result)) (datePart (start_time r) @ ''_'' @ t)
             (orDefault (host_email r) ''Unknown Host'')"
    and "snd result = [] \<longleftrightarrow> uploads (fst result) = uploads w"
proof -
  have step: "fileStep
      (w \<lparr> folders := folders w @ [(getDestinationFolderId cfg t,
                                    datePart (start_time r) @ ''_'' @ t)] \<rparr>, []) result"
    unfolding result_def by (rule foldl_processFile_step)
  note init = fileStep_initial [OF step]
  show "deletions (processRecording cfg e r tok w) =
           (if DELETE_AFTER_TRANSFER cfg \<and> snd result \<noteq> []
            then deletions w @ [uuid r] else deletions w)"
    using t n f init(2) by (simp add: processRecording_def Let_def result_def)
  show "uploads (processRecording cfg e r tok w) = uploads (fst result)"
    using t n f by (simp add: processRecording_def Let_def result_def)
  show "trackingSheet (processRecording cfg e r tok w) =
           logTransferToSheet e (trackingSheet w) t (datePart (start_time r))
             (join_str '', '' (snd result)) (datePart (start_time r) @ ''_'' @ t)
             (orDefault (host_email r) ''Unknown Host'')"
    using t n f init(1) by (simp add: processRecording_def Let_def result_def)
  show "snd result = [] \<longleftrightarrow> uploads (fst result) = uploads w"
    using init(3) by simp
qed

lemma processRecording_not_reached:
  assumes "recordingTopic cfg e r = Thrown \<or>
     (\<exists>t. recordingTopic cfg e r = Returned t \<and>
        (isRecordingProcessed t (datePart (start_time r)) (trackingSheet w) \<or>
         createDriveFolder e (datePart (start_time r) @ ''_'' @ t) (getDestinationFolderId cfg t)
           = Thrown))"
  shows "deletions (processRecording cfg e r tok w) = deletions w"
    and "uploads (processRecording cfg e r tok w) = uploads w"
  using assms by (auto simp: processRecording_def Let_def trackError_def)

lemma processRecording_cases:
  "recordingTopic cfg e r = Thrown \<or>
   (\<exists>t. recordingTopic cfg e r = Returned t \<and>
      (isRecordingProcessed t (datePart (start_time r)) (trackingSheet w) \<or>
       createDriveFolder e (datePart (start_time r) @ ''_'' @ t) (getDestinationFolderId cfg t)
         = Thrown)) \<or>
   (\<exists>t f. recordingTopic cfg e r = Returned t \<and>
      \<not> isRecordingProcessed t (datePart (start_time r)) (trackingSheet w) \<and>
      createDriveFolder e (datePart (start_time r) @ ''_'' @ t) (getDestinationFolderId cfg t)
        = Returned f)"
proof (cases "recordingTopic cfg e r")
  case Thrown
  then show ?thesis by simp
next
  case (Returned t)
  then show ?thesis
    by (cases "createDriveFolder e (datePart (start_time r) @ ''_'' @ t)
          (getDestinationFolderId cfg t)") auto
qed

lemma deletion_only_after_transfer:
  "deletions (processRecording cfg e r tok w) = deletions w \<or>
   (deletions (processRecording cfg e r tok w) = deletions w @ [uuid r] \<and>
    DELETE_AFTER_TRANSFER cfg \<and> uploads (processRecording cfg e r tok w) \<noteq> uploads w)"
proof -
  consider
    (skipped) "recordingTopic cfg e r = Thrown \<or>
      (\<exists>t. recordingTopic cfg e r = Returned t \<and>
        (isRecordingProcessed t (datePart (start_time r)) (trackingSheet w) \<or>
         createDriveFolder e (datePart (start_time r) @ ''_'' @ t) (getDestinationFolderId cfg t)
           = Thrown))"
  | (reached) t f where "recordingTopic cfg e r = Returned t"
      "\<not> isRecordingProcessed t (datePart (start_time r)) (trackingSheet w)"
      "createDriveFolder e (datePart (start_time r) @ ''_'' @ t) (getDestinationFolderId cfg t)
        = Returned f"
    using processRecording_cases [of cfg e r w] by blast
  then show ?thesis
  proof cases
    case skipped
    then show ?thesis using processRecording_not_reached(1) by blast
  next
    case reached
    note g = processRecording_reaches_gate [OF reached, where tok = tok]
    show ?thesis unfolding g(1) g(2) using g(4) by auto
  qed
qed

text \<open>
  Claim C2. A run of \<open>processRecording\<close> sends at most one deletion call, for the item it
  processes, and sends it only when \<open>DELETE_AFTER_TRANSFER\<close> is set and the run has
  uploaded at least one file. When the item is not skipped by the ledger lookup and its
  folder is obtained, the call is sent exactly when the flag is set and a file was
  uploaded; and when no file was uploaded, no call is sent and one row is appended to the
  sheet, for the item's topic, with the empty text as its file-types summary.
\<close>

theorem deletion_gated_on_transfer:
  "(deletions (processRecording cfg e r tok w) = deletions w \<or>
    deletions (processRecording cfg e r tok w) = deletions w @ [uuid r]) \<and>
   (deletions (processRecording cfg e r tok w) \<noteq> deletions w \<longrightarrow>
      DELETE_AFTER_TRANSFER cfg \<and> uploads (processRecording cfg e r tok w) \<noteq> uploads w) \<and>
   (recordingTopic cfg e r = Returned t \<and>
    \<not> isRecordingProcessed t (datePart (start_time r)) (trackingSheet w) \<and>
    createDriveFolder e (datePart (start_time r) @ ''_'' @ t) (getDestinationFolderId cfg t)
      = Returned f \<longrightarrow>
      (deletions (processRecording cfg e r tok w) = deletions w @ [uuid r] \<longleftrightarrow>
         DELETE_AFTER_TRANSFER cfg \<and> uploads (processRecording cfg e r tok w) \<noteq> uploads w) \<and>
      (uploads (processRecording cfg e r tok w) = uploads w \<longrightarrow>
         deletions (processRecording cfg e r tok w) = deletions w \<and>
         (\<exists>row. trackingSheet (processRecording cfg e r tok w) = trackingSheet w @ [row] \<and>
                cellAt row 0 = storeText e t \<and> cellAt row 2 = storeText e [])))"
proof (intro conjI impI; (elim conjE)?)
  show "deletions (processRecording cfg e r tok w) = deletions w \<or>
    deletions (processRecording cfg e r tok w) = deletions w @ [uuid r]"
    using deletion_only_after_transfer [of cfg e r tok w] by blast
  show "DELETE_AFTER_TRANSFER cfg"
    if "deletions (processRecording cfg e r tok w) \<noteq> deletions w"
    using that deletion_only_after_transfer [of cfg e r tok w] by blast
  show "uploads (processRecording cfg e r tok w) \<noteq> uploads w"
    if "deletions (processRecording cfg e r tok w) \<noteq> deletions w"
    using that deletion_only_after_transfer [of cfg e r tok w] by blast
next
  assume reached: "recordingTopic cfg e r = Returned t"
    "\<not> isRecordingProcessed t (datePart (start_time r)) (trackingSheet w)"
    "createDriveFolder e (datePart (start_time r) @ ''_'' @ t) (getDestinationFolderId cfg t)
      = Returned f"
  note g = processRecording_reaches_gate [OF reached, where tok = tok]
  show "deletions (processRecording cfg e r tok w) = deletions w @ [uuid r] \<longleftrightarrow>
         DELETE_AFTER_TRANSFER cfg \<and> uploads (processRecording cfg e r tok w) \<noteq> uploads w"
    unfolding g(1) g(2) using g(4) by auto
  show "deletions (processRecording cfg e r tok w) = deletions w"
    if "uploads (processRecording cfg e r tok w) = uploads w"
    using that unfolding g(1) g(2) using g(4) by auto
  show "\<exists>row. trackingSheet (processRecording cfg e r tok w) = trackingSheet w @ [row] \<and>
                cellAt row 0 = storeText e t \<and> cellAt row 2 = storeText e []"
    if "uploads (processRecording cfg e r tok w) = uploads w"
  proof -
    from that have "snd (foldl (processFile e tok f (datePart (start_time r)) t)
       (w \<lparr> folders := folders w @ [(getDestinationFolderId cfg t,
                                     datePart (start_time r) @ ''_'' @ t)] \<rparr>, [])
       (recording_files r)) = []"
      using g(4) unfolding g(2) by simp
    then show ?thesis
      unfolding g(3)
      by (simp add: logTransferToSheet_def cellAt_def fileTypesList_def)
  qed
qed


theorem deletion_gated_on_transfer_witness:
  "DELETE_AFTER_TRANSFER plainRouting \<and>
   deletions (processRecording plainRouting failingEnv rec2 ''tok'' emptyWorld) = [] \<and>
   (\<exists>row. trackingSheet (processRecording plainRouting failingEnv rec2 ''tok'' emptyWorld) =
            [headerRow, row] \<and>
          cellAt row 0 = TextCell ''Standup'' \<and> cellAt row 2 = TextCell [])"
proof -
  have fl: "DELETE_AFTER_TRANSFER plainRouting" by code_simp
  have t: "recordingTopic plainRouting failingEnv rec2 = Returned ''Standup''" by code_simp
  have l: "\<not> isRecordingProcessed ''Standup'' (datePart (start_time rec2))
              (trackingSheet emptyWorld)"
    by code_simp
  have f: "createDriveFolder failingEnv (datePart (start_time rec2) @ ''_'' @ ''Standup'')
              (getDestinationFolderId plainRouting ''Standup'') = Returned ''id-of-2024-03-15_Standup''"
    by code_simp
  have u: "uploads (processRecording plainRouting failingEnv rec2 ''tok'' emptyWorld) =
      uploads emptyWorld"
    by code_simp
  have s: "storeText failingEnv ''Standup'' = TextCell ''Standup''"
    "storeText failingEnv [] = TextCell []"
    "trackingSheet emptyWorld = [headerRow]" "deletions emptyWorld = []"
    by code_simp+
  from deletion_gated_on_transfer
         [where cfg = plainRouting and e = failingEnv and r = rec2 and tok = "''tok''"
            and w = emptyWorld and t = "''Standup''" and f = "''id-of-2024-03-15_Standup''"]
       t l f u
  have "deletions (processRecording plainRouting failingEnv rec2 ''tok'' emptyWorld) =
          deletions emptyWorld \<and>
        (\<exists>row. trackingSheet (processRecording plainRouting failingEnv rec2 ''tok'' emptyWorld) =
                 trackingSheet emptyWorld @ [row] \<and>
               cellAt row 0 = storeText failingEnv ''Standup'' \<and>
               cellAt row 2 = storeText failingEnv [])"
    by blast
  then show ?thesis using fl s by simp
qed

section \<open>Two runs over one recording: evaluation\<close>

text \<open>
  Claim C1 at a failing input. With recordings kept in Zoom after the transfer, a
  recording of 2024-03-15 with one video file is processed against an empty ledger, and
  then again against the ledger the first run left. The
  first run logs the meeting date as \<open>03-15-2024\<close>; the lookup of the second run asks for
  \<open>2024-03-15\<close> and finds nothing, whether the store holds the logged date as that text
  or as a date. The second run uploads the file again and logs a second row.
\<close>

theorem processRecording_second_run_repeats:
  "(let w1 = processRecording keepConfig textEnv rec2 ''tok'' emptyWorld;
        w2 = processRecording keepConfig textEnv rec2 ''tok'' w1
    in length (trackingSheet w1) = 2 \<and> length (uploads w1) = 1 \<and>
       cellAt (trackingSheet w1 ! 1) 1 = TextCell ''03-15-2024'' \<and>
       isRecordingProcessed ''Standup'' ''2024-03-15'' (trackingSheet w1) = False \<and>
       length (trackingSheet w2) = 3 \<and> length (uploads w2) = 2 \<and>
       deletions w2 = []) \<and>
   (let w1 = processRecording keepConfig parsingEnv rec2 ''tok'' emptyWorld;
        w2 = processRecording keepConfig parsingEnv rec2 ''tok'' w1
    in length (trackingSheet w1) = 2 \<and> length (uploads w1) = 1 \<and>
       cellAt (trackingSheet w1 ! 1) 1 = DateCell 2024 3 15 \<and>
       isRecordingProcessed ''Standup'' ''2024-03-15'' (trackingSheet w1) = False \<and>
       length (trackingSheet w2) = 3 \<and> length (uploads w2) = 2 \<and>
       deletions w2 = [])"
  by code_simp

end
